theory Spec2Isabelle
  imports Main "HOL-Library.Word" "HOL-Library.Multiset"
begin

unbundle bit_operations_syntax

section \<open>Single-precision lanes\<close>

text \<open>
  A \<open>float\<close> lane is kept as its 32-bit pattern, because the code stores an integer id in a
  lane by reinterpreting its bits. The arithmetic and the comparisons below are those of
  the SSE instructions the intrinsics compile to (ADDPS, SUBPS, and CMPLTPS, which with its
  operands swapped is also the greater-than test) and of the scalar \<open><\<close> and \<open>>\<close> of C++,
  under the default control word: round to nearest even, exceptions masked, denormals
  kept. A finite pattern denotes an integer number of units of \<open>2 ^ -149\<close>; the sum of two
  of them is exact in these units and is rounded once.
\<close>

type_synonym f32 = "32 word"
type_synonym int32 = "32 word"

definition f_sign :: "f32 \<Rightarrow> bool" where
  "f_sign w = (unat w div 2 ^ 31 = 1)"

definition f_exp :: "f32 \<Rightarrow> nat" where
  "f_exp w = (unat w div 2 ^ 23) mod 256"

definition f_man :: "f32 \<Rightarrow> nat" where
  "f_man w = unat w mod 2 ^ 23"

definition f_isnan :: "f32 \<Rightarrow> bool" where
  "f_isnan w = (f_exp w = 255 \<and> f_man w \<noteq> 0)"

definition f_isinf :: "f32 \<Rightarrow> bool" where
  "f_isinf w = (f_exp w = 255 \<and> f_man w = 0)"

definition f_mag :: "f32 \<Rightarrow> nat" where
  \<comment> \<open>magnitude in units of \<open>2 ^ -149\<close>; an infinity lands above every finite magnitude\<close>
  "f_mag w = (if f_exp w = 0 then f_man w else (2 ^ 23 + f_man w) * 2 ^ (f_exp w - 1))"

definition f_units :: "f32 \<Rightarrow> int" where
  "f_units w = (if f_sign w then - int (f_mag w) else int (f_mag w))"

definition flt :: "f32 \<Rightarrow> f32 \<Rightarrow> bool" where
  \<comment> \<open>ordered \<open><\<close>: false as soon as one side is a NaN; the two zeros are equal\<close>
  "flt a b = (\<not> f_isnan a \<and> \<not> f_isnan b \<and> f_units a < f_units b)"

definition fgt :: "f32 \<Rightarrow> f32 \<Rightarrow> bool" where
  "fgt a b = (\<not> f_isnan a \<and> \<not> f_isnan b \<and> f_units a > f_units b)"

definition fle :: "f32 \<Rightarrow> f32 \<Rightarrow> bool" where
  "fle a b = (\<not> f_isnan a \<and> \<not> f_isnan b \<and> f_units a \<le> f_units b)"

function bit_length :: "nat \<Rightarrow> nat" where
  "bit_length n = (if n = 0 then 0 else Suc (bit_length (n div 2)))"
  by pat_completeness auto
termination
  by (relation "measure (\<lambda>n. n)") auto

declare bit_length.simps [simp del]

definition f_round :: "nat \<Rightarrow> nat" where
  \<comment> \<open>the low 31 bits of the pattern nearest to \<open>n\<close> units, ties to even, overflow to infinity\<close>
  "f_round n =
     (let s = bit_length n - 24;
          q = n div 2 ^ s;
          r = n mod 2 ^ s;
          q' = (if 2 ^ s < 2 * r \<or> (2 * r = 2 ^ s \<and> odd q) then q + 1 else q);
          bits = s * 2 ^ 23 + q'
      in if 2139095040 \<le> bits then 2139095040 else bits)"

definition f_quiet :: "f32 \<Rightarrow> f32" where
  "f_quiet w = w OR 0x00400000"

definition f_neg :: "f32 \<Rightarrow> f32" where
  "f_neg w = w XOR 0x80000000"

definition fadd :: "f32 \<Rightarrow> f32 \<Rightarrow> f32" where
  "fadd a b =
     (if f_isnan a then f_quiet a
      else if f_isnan b then f_quiet b
      else if f_isinf a then (if f_isinf b \<and> f_sign a \<noteq> f_sign b then 0xFFC00000 else a)
      else if f_isinf b then b
      else let u = f_units a + f_units b
           in if u = 0 then (if f_sign a \<and> f_sign b then 0x80000000 else 0)
              else if u < 0 then 0x80000000 + of_nat (f_round (nat (- u)))
              else of_nat (f_round (nat u)))"

definition fsub :: "f32 \<Rightarrow> f32 \<Rightarrow> f32" where
  "fsub a b =
     (if f_isnan a then f_quiet a
      else if f_isnan b then f_quiet b
      else fadd a (f_neg b))"

section \<open>The SSE intrinsics used by the store\<close>

datatype m128 = M128 (lane0: f32) (lane1: f32) (lane2: f32) (lane3: f32)

fun m128_f32 :: "m128 \<Rightarrow> nat \<Rightarrow> f32" where
  "m128_f32 v i =
     (if i = 0 then lane0 v else if i = 1 then lane1 v else if i = 2 then lane2 v else lane3 v)"

definition mm_set_ps :: "f32 \<Rightarrow> f32 \<Rightarrow> f32 \<Rightarrow> f32 \<Rightarrow> m128" where
  \<comment> \<open>\<open>_mm_set_ps(e3, e2, e1, e0)\<close>: the last argument is lane 0\<close>
  "mm_set_ps e3 e2 e1 e0 = M128 e0 e1 e2 e3"

definition mm_add_ps :: "m128 \<Rightarrow> m128 \<Rightarrow> m128" where
  "mm_add_ps a b =
     M128 (fadd (lane0 a) (lane0 b)) (fadd (lane1 a) (lane1 b))
          (fadd (lane2 a) (lane2 b)) (fadd (lane3 a) (lane3 b))"

definition mm_sub_ps :: "m128 \<Rightarrow> m128 \<Rightarrow> m128" where
  "mm_sub_ps a b =
     M128 (fsub (lane0 a) (lane0 b)) (fsub (lane1 a) (lane1 b))
          (fsub (lane2 a) (lane2 b)) (fsub (lane3 a) (lane3 b))"

definition lane_mask :: "bool \<Rightarrow> f32" where
  "lane_mask c = (if c then 0xFFFFFFFF else 0)"

definition mm_cmplt_ps :: "m128 \<Rightarrow> m128 \<Rightarrow> m128" where
  "mm_cmplt_ps a b =
     M128 (lane_mask (flt (lane0 a) (lane0 b))) (lane_mask (flt (lane1 a) (lane1 b)))
          (lane_mask (flt (lane2 a) (lane2 b))) (lane_mask (flt (lane3 a) (lane3 b)))"

definition mm_cmpgt_ps :: "m128 \<Rightarrow> m128 \<Rightarrow> m128" where
  "mm_cmpgt_ps a b =
     M128 (lane_mask (fgt (lane0 a) (lane0 b))) (lane_mask (fgt (lane1 a) (lane1 b)))
          (lane_mask (fgt (lane2 a) (lane2 b))) (lane_mask (fgt (lane3 a) (lane3 b)))"

definition mm_or_ps :: "m128 \<Rightarrow> m128 \<Rightarrow> m128" where
  "mm_or_ps a b =
     M128 (lane0 a OR lane0 b) (lane1 a OR lane1 b) (lane2 a OR lane2 b) (lane3 a OR lane3 b)"

definition sign_bit :: "f32 \<Rightarrow> int" where
  "sign_bit w = (if bit w 31 then 1 else 0)"

definition mm_movemask_ps :: "m128 \<Rightarrow> int" where
  "mm_movemask_ps v =
     sign_bit (lane0 v) + 2 * sign_bit (lane1 v) + 4 * sign_bit (lane2 v) + 8 * sign_bit (lane3 v)"

definition MM_SHUFFLE :: "nat \<Rightarrow> nat \<Rightarrow> nat \<Rightarrow> nat \<Rightarrow> nat" where
  "MM_SHUFFLE fp3 fp2 fp1 fp0 = fp3 * 64 + fp2 * 16 + fp1 * 4 + fp0"

definition mm_shuffle_ps :: "m128 \<Rightarrow> m128 \<Rightarrow> nat \<Rightarrow> m128" where
  "mm_shuffle_ps a b imm =
     M128 (m128_f32 a (imm mod 4)) (m128_f32 a ((imm div 4) mod 4))
          (m128_f32 b ((imm div 16) mod 4)) (m128_f32 b ((imm div 64) mod 4))"

definition mm_castps_si128 :: "m128 \<Rightarrow> m128" where
  "mm_castps_si128 v = v"

definition mm_cvtsi128_si32 :: "m128 \<Rightarrow> int32" where
  "mm_cvtsi128_si32 v = lane0 v"

section \<open>Vector3 and AABB\<close>

record Vector3 =
  vec_x :: f32
  vec_y :: f32
  vec_z :: f32

record AABB =
  vecmax :: m128
  vecmin :: m128

definition AABB_new :: "int32 \<Rightarrow> Vector3 \<Rightarrow> Vector3 \<Rightarrow> AABB" where
  \<comment> \<open>the constructor \<open>AABB(id, center, extents)\<close>; \<open>reinterpret_cast<float &>(id)\<close> keeps the bits\<close>
  "AABB_new ident center extents =
     (let v_center = mm_set_ps ident (vec_z center) (vec_y center) (vec_x center);
          v_extents = mm_set_ps 0 (vec_z extents) (vec_y extents) (vec_x extents)
      in \<lparr> vecmax = mm_add_ps v_center v_extents, vecmin = mm_sub_ps v_center v_extents \<rparr>)"

section \<open>Predicates\<close>

definition intersects :: "AABB \<Rightarrow> AABB \<Rightarrow> bool" where
  "intersects volume0 volume1 =
     (let temp = mm_cmplt_ps (vecmax volume0) (vecmin volume1);
          temp2 = mm_cmpgt_ps (vecmin volume0) (vecmax volume1);
          temp = mm_or_ps temp temp2
      in (mm_movemask_ps temp AND 7) \<le> 0)"

function intersectsOrig_loop :: "nat \<Rightarrow> AABB \<Rightarrow> AABB \<Rightarrow> bool" where
  "intersectsOrig_loop i volume0 volume1 =
     (if i < 3 then
        (if flt (m128_f32 (vecmax volume0) i) (m128_f32 (vecmin volume1) i)
            \<or> fgt (m128_f32 (vecmin volume0) i) (m128_f32 (vecmax volume1) i)
         then False
         else intersectsOrig_loop (i + 1) volume0 volume1)
      else True)"
  by pat_completeness auto
termination
  by (relation "measure (\<lambda>(i, a, b). 3 - i)") auto

declare intersectsOrig_loop.simps [simp del]

definition intersectsOrig :: "AABB \<Rightarrow> AABB \<Rightarrow> bool" where
  "intersectsOrig volume0 volume1 = intersectsOrig_loop 0 volume0 volume1"

definition contains :: "AABB \<Rightarrow> AABB \<Rightarrow> int" where
  \<comment> \<open>declared \<open>int\<close>: the comparison's truth value is returned as 1 or 0\<close>
  "contains volume0 volume1 =
     (let temp = mm_cmpgt_ps (vecmin volume0) (vecmin volume1);
          temp2 = mm_cmplt_ps (vecmax volume0) (vecmax volume1);
          temp = mm_or_ps temp temp2
      in if (mm_movemask_ps temp AND 7) \<le> 0 then 1 else 0)"

definition IdFromAABB :: "AABB \<Rightarrow> int32" where
  "IdFromAABB box =
     (let temp = mm_shuffle_ps (vecmax box) (vecmax box) (MM_SHUFFLE 3 3 3 3)
      in mm_cvtsi128_si32 (mm_castps_si128 temp))"

section \<open>The store\<close>

text \<open>
  \<open>elementVector\<close> is the dense \<open>std::vector<AABB>\<close>, \<open>idToIndex\<close> the
  \<open>std::unordered_map<int, int>\<close>. Slot numbers are kept as \<open>nat\<close>: the code only ever
  stores vector sizes and valid positions in the map, and the vector is assumed to stay
  below \<open>2 ^ 31\<close> elements, so the conversions between \<open>int\<close> and \<open>size_t\<close> never wrap.
  An element access outside the vector is undefined behaviour in the source and is the
  value \<open>Inl OutOfRange\<close> here.
\<close>

record SpatialPartitioner =
  elementVector :: "AABB list"
  idToIndex :: "int32 \<rightharpoonup> nat"

datatype fault = OutOfRange

definition SpatialPartitioner_new :: SpatialPartitioner where
  "SpatialPartitioner_new = \<lparr> elementVector = [], idToIndex = Map.empty \<rparr>"

definition map_subscript :: "(int32 \<rightharpoonup> nat) \<Rightarrow> int32 \<Rightarrow> (int32 \<rightharpoonup> nat) \<times> nat" where
  \<comment> \<open>\<open>operator[]\<close> of \<open>std::unordered_map\<close>: a missing key is inserted with the value 0\<close>
  "map_subscript m k = (case m k of None \<Rightarrow> (m(k \<mapsto> 0), 0) | Some v \<Rightarrow> (m, v))"

definition AddItem :: "int32 \<Rightarrow> Vector3 \<Rightarrow> Vector3 \<Rightarrow> SpatialPartitioner \<Rightarrow> SpatialPartitioner" where
  "AddItem itemId itemBoundsCenter itemBoundsSize s =
     \<lparr> elementVector = elementVector s @ [AABB_new itemId itemBoundsCenter itemBoundsSize],
       idToIndex = (idToIndex s)(itemId \<mapsto> length (elementVector s)) \<rparr>"

definition UpdateItem ::
  "int32 \<Rightarrow> Vector3 \<Rightarrow> Vector3 \<Rightarrow> SpatialPartitioner \<Rightarrow> fault + SpatialPartitioner" where
  "UpdateItem itemId itemBoundsCenter itemBoundsSize s =
     (let (m, index) = map_subscript (idToIndex s) itemId
      in if index < length (elementVector s)
         then Inr \<lparr> elementVector =
                      (elementVector s)[index := AABB_new itemId itemBoundsCenter itemBoundsSize],
                    idToIndex = m \<rparr>
         else Inl OutOfRange)"

definition SIZE_MAX :: nat where
  "SIZE_MAX = 2 ^ 64 - 1"

definition size_minus_one :: "nat \<Rightarrow> nat" where
  \<comment> \<open>\<open>elementVector.size() - 1\<close> in \<open>size_t\<close>: wraps on the empty vector\<close>
  "size_minus_one n = (if n = 0 then SIZE_MAX else n - 1)"

definition RemoveItem_swap :: "int32 \<Rightarrow> SpatialPartitioner \<Rightarrow> fault + SpatialPartitioner" where
  \<comment> \<open>the body of the branch \<open>elementVector.size() > 1\<close>: swap with the last element\<close>
  "RemoveItem_swap itemId s =
     (let (m, index) = map_subscript (idToIndex s) itemId;
          n = length (elementVector s);
          lastPos = size_minus_one n
      in if index = lastPos
         then (if n = 0 then Inl OutOfRange
               else Inr \<lparr> elementVector = butlast (elementVector s),
                          idToIndex = m(itemId := None) \<rparr>)
         else if n \<le> lastPos \<or> n \<le> index then Inl OutOfRange
         else let lastId = IdFromAABB (elementVector s ! lastPos);
                  ev = (elementVector s)[index := elementVector s ! lastPos]
              in Inr \<lparr> elementVector = butlast ev,
                       idToIndex = (m(itemId := None))(lastId \<mapsto> index) \<rparr>)"

definition RemoveItem_clear :: "SpatialPartitioner \<Rightarrow> SpatialPartitioner" where
  \<comment> \<open>the \<open>else\<close> branch: both containers are cleared\<close>
  "RemoveItem_clear s = \<lparr> elementVector = [], idToIndex = Map.empty \<rparr>"

definition RemoveItem :: "int32 \<Rightarrow> SpatialPartitioner \<Rightarrow> fault + SpatialPartitioner" where
  "RemoveItem itemId s =
     (if 1 < length (elementVector s) then RemoveItem_swap itemId s
      else Inr (RemoveItem_clear s))"

text \<open>
  The three queries share one loop shape. \<open>returnArray\<close> is the caller's memory behind the
  pointer, a function from positions to values; the loop returns it with the count. The
  queries do not assign to any member; they hand the store back as they found it.
\<close>

fun query_loop ::
  "(AABB \<Rightarrow> bool) \<Rightarrow> AABB list \<Rightarrow> (nat \<Rightarrow> int32) \<Rightarrow> int \<Rightarrow> int \<Rightarrow> (nat \<Rightarrow> int32) \<times> int" where
  "query_loop hit [] returnArray curNumResults returnArrayMaxSize = (returnArray, curNumResults)"
| "query_loop hit (it # rest) returnArray curNumResults returnArrayMaxSize =
     (if hit it then
        (let returnArray' = returnArray(nat curNumResults := IdFromAABB it);
             curNumResults' = curNumResults + 1
         in if returnArrayMaxSize \<le> curNumResults' then (returnArray', curNumResults')
            else query_loop hit rest returnArray' curNumResults' returnArrayMaxSize)
      else query_loop hit rest returnArray curNumResults returnArrayMaxSize)"

definition ContainedBy ::
  "Vector3 \<Rightarrow> Vector3 \<Rightarrow> (nat \<Rightarrow> int32) \<Rightarrow> int \<Rightarrow> SpatialPartitioner
     \<Rightarrow> ((nat \<Rightarrow> int32) \<times> int) \<times> SpatialPartitioner" where
  "ContainedBy testCenter testExtents returnArray returnArrayMaxSize s =
     (let testAABB = AABB_new (- 1) testCenter testExtents
      in (query_loop (\<lambda>it. contains testAABB it \<noteq> 0) (elementVector s)
            returnArray 0 returnArrayMaxSize, s))"

definition IntersectedBy ::
  "Vector3 \<Rightarrow> Vector3 \<Rightarrow> (nat \<Rightarrow> int32) \<Rightarrow> int \<Rightarrow> SpatialPartitioner
     \<Rightarrow> ((nat \<Rightarrow> int32) \<times> int) \<times> SpatialPartitioner" where
  "IntersectedBy testCenter testExtents returnArray returnArrayMaxSize s =
     (let testAABB = AABB_new (- 1) testCenter testExtents
      in (query_loop (\<lambda>it. intersects testAABB it) (elementVector s)
            returnArray 0 returnArrayMaxSize, s))"

definition IntersectedByOrig ::
  "Vector3 \<Rightarrow> Vector3 \<Rightarrow> (nat \<Rightarrow> int32) \<Rightarrow> int \<Rightarrow> SpatialPartitioner
     \<Rightarrow> ((nat \<Rightarrow> int32) \<times> int) \<times> SpatialPartitioner" where
  "IntersectedByOrig testCenter testExtents returnArray returnArrayMaxSize s =
     (let testAABB = AABB_new (- 1) testCenter testExtents
      in (query_loop (\<lambda>it. intersectsOrig testAABB it) (elementVector s)
            returnArray 0 returnArrayMaxSize, s))"

definition HasItem :: "int32 \<Rightarrow> SpatialPartitioner \<Rightarrow> bool \<times> SpatialPartitioner" where
  \<comment> \<open>\<open>find\<close>, unlike \<open>operator[]\<close>, inserts nothing\<close>
  "HasItem itemHandle s = (idToIndex s itemHandle \<noteq> None, s)"

section \<open>Notions the claims are stated with\<close>

definition well_formed :: "AABB \<Rightarrow> bool" where
  \<comment> \<open>the entity invariant \<open>min[axis] <= max[axis]\<close> on the three spatial lanes\<close>
  "well_formed box =
     (fle (lane0 (vecmin box)) (lane0 (vecmax box))
      \<and> fle (lane1 (vecmin box)) (lane1 (vecmax box))
      \<and> fle (lane2 (vecmin box)) (lane2 (vecmax box)))"

definition written :: "(nat \<Rightarrow> int32) \<times> int \<Rightarrow> int32 list" where
  \<comment> \<open>what a caller reads back from a query: the first \<open>count\<close> cells of the buffer\<close>
  "written r = map (fst r) [0..<nat (snd r)]"

definition bounded_count :: "int \<Rightarrow> int \<Rightarrow> int \<Rightarrow> int" where
  \<comment> \<open>the counter a query loop ends with, from the counter it starts with, the number of
      matching entities and the capacity: the capacity is tested only after a write\<close>
  "bounded_count cur M N = (if M = 0 then cur else max (cur + 1) (min (cur + M) N))"

definition store_inv :: "SpatialPartitioner \<Rightarrow> bool" where
  \<comment> \<open>the store invariants: (a) a mapped id addresses a slot inside the sequence whose packed
      id is that key; (b) the packed id of every slot is mapped to that slot, and by (a) no
      other key is; (c) the range of slots is part of (a), the sequence is a list\<close>
  "store_inv s \<longleftrightarrow>
     (\<forall>k i. idToIndex s k = Some i \<longrightarrow>
        i < length (elementVector s) \<and> IdFromAABB (elementVector s ! i) = k)
   \<and> (\<forall>i < length (elementVector s).
        idToIndex s (IdFromAABB (elementVector s ! i)) = Some i)"

definition lane_keeps :: "int32 \<Rightarrow> bool" where
  \<comment> \<open>the id's bit pattern comes back unchanged from the fourth lane, which holds \<open>id + 0.0f\<close>\<close>
  "lane_keeps i \<longleftrightarrow> fadd i 0 = i"

definition removal_ok ::
  "SpatialPartitioner \<Rightarrow> int32 \<Rightarrow> nat \<Rightarrow> SpatialPartitioner \<Rightarrow> bool" where
  \<comment> \<open>what removing the id \<open>i\<close>, stored in slot \<open>idx\<close>, has to achieve\<close>
  "removal_ok s i idx s' \<longleftrightarrow>
     store_inv s' \<and> idToIndex s' i = None
   \<and> length (elementVector s') + 1 = length (elementVector s)
   \<and> (\<forall>j k. j \<noteq> i \<longrightarrow> idToIndex s j = Some k \<longrightarrow>
         (\<exists>k'. idToIndex s' j = Some k' \<and> elementVector s' ! k' = elementVector s ! k))
   \<and> mset (elementVector s') = mset (elementVector s) - {# elementVector s ! idx #}"

definition ids_kept :: "SpatialPartitioner \<Rightarrow> bool" where
  \<comment> \<open>every mapped id is one whose bit pattern the fourth lane keeps\<close>
  "ids_kept s \<longleftrightarrow> (\<forall>k i. idToIndex s k = Some i \<longrightarrow> lane_keeps k)"

text \<open>
  The stores that the sequences of calls of the invariant claim produce: \<open>AddItem\<close> with an
  id that is not present, \<open>UpdateItem\<close> and \<open>RemoveItem\<close> with an id that is present. The
  ids added are restricted to those the fourth lane keeps.
\<close>

inductive reachable :: "SpatialPartitioner \<Rightarrow> bool" where
  start: "reachable SpatialPartitioner_new"
| add: "reachable s \<Longrightarrow> \<not> fst (HasItem i s) \<Longrightarrow> lane_keeps i \<Longrightarrow> reachable (AddItem i c e s)"
| update: "reachable s \<Longrightarrow> fst (HasItem i s) \<Longrightarrow> UpdateItem i c e s = Inr s' \<Longrightarrow> reachable s'"
| remove: "reachable s \<Longrightarrow> fst (HasItem i s) \<Longrightarrow> RemoveItem i s = Inr s' \<Longrightarrow> reachable s'"

text \<open>
  The box of the specification's scenario A, center \<open>(0, 0, 0)\<close> and extents
  \<open>(0.5, 0.5, 0.5)\<close>, and an output buffer filled with zeros, for the concrete runs below.
\<close>

definition origin :: Vector3 where
  "origin = \<lparr>vec_x = 0, vec_y = 0, vec_z = 0\<rparr>"

definition half :: Vector3 where
  "half = \<lparr>vec_x = 0x3F000000, vec_y = 0x3F000000, vec_z = 0x3F000000\<rparr>"

definition zero_buffer :: "nat \<Rightarrow> int32" where
  "zero_buffer = (\<lambda>k. 0)"

section \<open>Lane-level reading of the predicates\<close>

lemma sign_bit_lane_mask_or: "sign_bit (lane_mask c OR lane_mask d) = (if c \<or> d then 1 else 0)"
  by (simp add: sign_bit_def lane_mask_def bit_or_iff)

lemma low3_mask_zero:
  "((b0 + 2 * b1 + 4 * b2 + 8 * b3) AND (7::int)) \<le> 0 \<longleftrightarrow> b0 = 0 \<and> b1 = 0 \<and> b2 = 0"
  if "b0 \<in> {0, 1}" "b1 \<in> {0, 1}" "b2 \<in> {0, 1}" "b3 \<in> {0, 1}"
  using that by auto

lemma sign_bit_01: "sign_bit w \<in> {0, 1}"
  by (simp add: sign_bit_def)

lemma movemask_low3:
  "(mm_movemask_ps v AND 7) \<le> 0 \<longleftrightarrow>
     sign_bit (lane0 v) = 0 \<and> sign_bit (lane1 v) = 0 \<and> sign_bit (lane2 v) = 0"
  unfolding mm_movemask_ps_def
  by (rule low3_mask_zero) (rule sign_bit_01)+

lemma intersects_lanes:
  "intersects A B \<longleftrightarrow>
     \<not> (flt (lane0 (vecmax A)) (lane0 (vecmin B)) \<or> fgt (lane0 (vecmin A)) (lane0 (vecmax B)))
   \<and> \<not> (flt (lane1 (vecmax A)) (lane1 (vecmin B)) \<or> fgt (lane1 (vecmin A)) (lane1 (vecmax B)))
   \<and> \<not> (flt (lane2 (vecmax A)) (lane2 (vecmin B)) \<or> fgt (lane2 (vecmin A)) (lane2 (vecmax B)))"
  by (simp add: intersects_def Let_def movemask_low3 mm_or_ps_def mm_cmplt_ps_def
      mm_cmpgt_ps_def sign_bit_lane_mask_or)

lemma intersectsOrig_lanes:
  "intersectsOrig A B \<longleftrightarrow>
     \<not> (flt (lane0 (vecmax A)) (lane0 (vecmin B)) \<or> fgt (lane0 (vecmin A)) (lane0 (vecmax B)))
   \<and> \<not> (flt (lane1 (vecmax A)) (lane1 (vecmin B)) \<or> fgt (lane1 (vecmin A)) (lane1 (vecmax B)))
   \<and> \<not> (flt (lane2 (vecmax A)) (lane2 (vecmin B)) \<or> fgt (lane2 (vecmin A)) (lane2 (vecmax B)))"
  by (simp add: intersectsOrig_def intersectsOrig_loop.simps)

lemma contains_lanes:
  "contains A B \<noteq> 0 \<longleftrightarrow>
     \<not> (fgt (lane0 (vecmin A)) (lane0 (vecmin B)) \<or> flt (lane0 (vecmax A)) (lane0 (vecmax B)))
   \<and> \<not> (fgt (lane1 (vecmin A)) (lane1 (vecmin B)) \<or> flt (lane1 (vecmax A)) (lane1 (vecmax B)))
   \<and> \<not> (fgt (lane2 (vecmin A)) (lane2 (vecmin B)) \<or> flt (lane2 (vecmax A)) (lane2 (vecmax B)))"
  by (simp add: contains_def Let_def movemask_low3 mm_or_ps_def mm_cmplt_ps_def
      mm_cmpgt_ps_def sign_bit_lane_mask_or)

section \<open>The two intersection tests agree\<close>

text \<open>
  C1. For every pair of boxes, whatever their lanes hold (touching faces, separated axes,
  NaNs, the id lane), the vectorised \<open>intersects\<close> and the scalar \<open>intersectsOrig\<close> return
  the same truth value.
\<close>

theorem intersects_eq_intersectsOrig: "intersects A B = intersectsOrig A B"
  by (simp add: intersects_lanes intersectsOrig_lanes)

section \<open>Evaluating lanes\<close>

lemmas f32_eval = fadd_def fsub_def f_isnan_def f_isinf_def f_exp_def f_man_def f_sign_def
  f_units_def f_mag_def f_round_def f_quiet_def f_neg_def bit_length.simps Let_def

lemma fadd_zero_zero: "fadd 0 0 = 0"
  by (simp add: f32_eval)

lemma fsub_zero_zero: "fsub 0 0 = 0"
  by (simp add: f32_eval)

lemma fadd_zero_half: "fadd 0 0x3F000000 = 0x3F000000"
  by (simp add: f32_eval)

lemma fsub_zero_half: "fsub 0 0x3F000000 = 0xBF000000"
  by (simp add: f32_eval)

lemma fadd_half_half: "fadd 0x3F000000 0x3F000000 = 0x3F800000"
  by (simp add: f32_eval)

lemma fsub_half_half: "fsub 0x3F000000 0x3F000000 = 0"
  by (simp add: f32_eval)

lemma fadd_one_minus_one: "fadd 0x3F800000 0xBF800000 = 0"
  by (simp add: f32_eval)

lemma fsub_one_minus_one: "fsub 0x3F800000 0xBF800000 = 0x40000000"
  by (simp add: f32_eval)

lemma fadd_int_min_zero: "fadd 0x80000000 0 = 0"
  by (simp add: f32_eval)

lemma zero_not_int_min: "(0 :: 32 word) \<noteq> 0x80000000"
  by simp

text \<open>Reference values of IEEE-754 single precision, as a check of the lane model.\<close>

lemma fadd_one_one: "fadd 0x3F800000 0x3F800000 = 0x40000000"
  by (simp add: f32_eval)

lemma fadd_tenth_fifth: "fadd 0x3DCCCCCD 0x3E4CCCCD = 0x3E99999A"
  by (simp add: f32_eval)

lemma fadd_tie_even_down: "fadd 0x3F800000 0x33800000 = 0x3F800000"
  by (simp add: f32_eval)

lemma fadd_tie_even_up: "fadd 0x3F800001 0x33800000 = 0x3F800002"
  by (simp add: f32_eval)

lemma fadd_above_tie: "fadd 0x3F800000 0x33800001 = 0x3F800001"
  by (simp add: f32_eval)

lemma fadd_denormal_carry: "fadd 0x007FFFFF 1 = 0x00800000"
  by (simp add: f32_eval)

lemma fsub_inf_inf: "fsub 0x7F800000 0x7F800000 = 0xFFC00000"
  by (simp add: f32_eval)

lemma fadd_snan_zero: "fadd 0x7F800001 0 = 0x7FC00001"
  by (simp add: f32_eval)

lemma fadd_qnan_zero: "fadd 0xFFFFFFFF 0 = 0xFFFFFFFF"
  by (simp add: f32_eval)

lemma int_min_bits: "(- 2147483648 :: 32 word) = 0x80000000"
  by simp

lemmas lane_values = fadd_zero_zero fsub_zero_zero fadd_zero_half fsub_zero_half
  fadd_half_half fsub_half_half fadd_one_minus_one fsub_one_minus_one

lemmas cmp_eval = flt_def fgt_def fle_def f_isnan_def f_exp_def f_man_def f_units_def
  f_sign_def f_mag_def

lemma AABB_new_lanes:
  "AABB_new i c e =
     \<lparr> vecmax = M128 (fadd (vec_x c) (vec_x e)) (fadd (vec_y c) (vec_y e))
                      (fadd (vec_z c) (vec_z e)) (fadd i 0),
       vecmin = M128 (fsub (vec_x c) (vec_x e)) (fsub (vec_y c) (vec_y e))
                      (fsub (vec_z c) (vec_z e)) (fsub i 0) \<rparr>"
  by (simp add: AABB_new_def mm_set_ps_def mm_add_ps_def mm_sub_ps_def)

lemma AABB_new_sel:
  "lane0 (vecmax (AABB_new i c e)) = fadd (vec_x c) (vec_x e)"
  "lane1 (vecmax (AABB_new i c e)) = fadd (vec_y c) (vec_y e)"
  "lane2 (vecmax (AABB_new i c e)) = fadd (vec_z c) (vec_z e)"
  "lane3 (vecmax (AABB_new i c e)) = fadd i 0"
  "lane0 (vecmin (AABB_new i c e)) = fsub (vec_x c) (vec_x e)"
  "lane1 (vecmin (AABB_new i c e)) = fsub (vec_y c) (vec_y e)"
  "lane2 (vecmin (AABB_new i c e)) = fsub (vec_z c) (vec_z e)"
  by (simp_all add: AABB_new_lanes)

lemma IdFromAABB_lane3: "IdFromAABB box = lane3 (vecmax box)"
  by (simp add: IdFromAABB_def mm_shuffle_ps_def MM_SHUFFLE_def mm_castps_si128_def
      mm_cvtsi128_si32_def)

lemma IdFromAABB_AABB_new: "IdFromAABB (AABB_new i c e) = fadd i 0"
  by (simp add: IdFromAABB_lane3 AABB_new_sel)

section \<open>The id lane\<close>

text \<open>
  C3. The claim is that \<open>IdFromAABB (AABB (id, center, extents)) = id\<close> for every 32-bit id.
  The constructor does not store the id's bits in the fourth lane of \<open>vecmax\<close>: it adds the
  extents vector, whose fourth lane is \<open>0.0f\<close>, to them. For \<open>id = INT_MIN\<close> the bits are
  those of \<open>-0.0f\<close>, the sum \<open>-0.0f + 0.0f\<close> is \<open>+0.0f\<close>, and the id read back is 0, whatever
  the center and the extents are.
\<close>

theorem IdFromAABB_int_min: "IdFromAABB (AABB_new (- 2147483648) c e) = 0"
  by (simp only: IdFromAABB_AABB_new int_min_bits fadd_int_min_zero)

section \<open>Which ids the lane keeps\<close>

text \<open>
  Adding \<open>0.0f\<close> returns the operand for every finite value except \<open>-0.0f\<close>, for the
  infinities and for the quiet NaNs; a signalling NaN comes back quiet. So the id read
  back from a constructed box is the id given unless the id is \<open>INT_MIN\<close> or has the bits
  of a signalling NaN (exponent field 255, mantissa not zero, bit 22 clear).
\<close>

lemma bit_length_le: "n < 2 ^ k \<Longrightarrow> bit_length n \<le> k"
proof (induction k arbitrary: n)
  case 0
  then show ?case by (simp add: bit_length.simps)
next
  case (Suc k)
  show ?case
  proof (cases "n = 0")
    case True
    then show ?thesis by (simp add: bit_length.simps)
  next
    case False
    from Suc.prems have "n div 2 < 2 ^ k" by simp
    from Suc.IH [OF this] False show ?thesis
      by (subst bit_length.simps) simp
  qed
qed

lemma bit_length_eq: "2 ^ k \<le> n \<Longrightarrow> n < 2 ^ Suc k \<Longrightarrow> bit_length n = Suc k"
proof (induction k arbitrary: n)
  case 0
  then have "n = 1" by simp
  then show ?case by (simp add: bit_length.simps)
next
  case (Suc k)
  from Suc.prems have lo: "2 ^ k \<le> n div 2" and hi: "n div 2 < 2 ^ Suc k" by simp_all
  from Suc.prems have "n \<noteq> 0" by auto
  with Suc.IH [OF lo hi] show ?case
    by (subst bit_length.simps) simp
qed

lemma f_man_less: "f_man w < 2 ^ 23"
  by (simp add: f_man_def)

lemma f_exp_less: "f_exp w < 256"
  by (simp add: f_exp_def)

lemma low31_split: "unat w mod 2 ^ 31 = f_exp w * 2 ^ 23 + f_man w"
proof -
  have "unat w mod (2 ^ 23 * 2 ^ 8) = 2 ^ 23 * (unat w div 2 ^ 23 mod 2 ^ 8) + unat w mod 2 ^ 23"
    by (rule mod_mult2_eq)
  then show ?thesis by (simp add: f_exp_def f_man_def)
qed

lemma f_round_f_mag:
  assumes "f_exp w < 255"
  shows "f_round (f_mag w) = unat w mod 2 ^ 31"
proof (cases "f_exp w = 0")
  case True
  have "bit_length (f_man w) \<le> 23" by (rule bit_length_le [OF f_man_less])
  then have s: "bit_length (f_man w) - 24 = 0" by simp
  have "f_round (f_man w) = f_man w"
    using f_man_less [of w] unfolding f_round_def s by (simp add: Let_def)
  with True show ?thesis unfolding low31_split by (simp add: f_mag_def)
next
  case False
  define e where "e = f_exp w - 1"
  define m where "m = f_man w"
  have e: "f_exp w = Suc e" using False by (simp add: e_def)
  have m: "m < 2 ^ 23" unfolding m_def by (rule f_man_less)
  have e_le: "e < 254" using assms e by simp
  let ?n = "(2 ^ 23 + m) * 2 ^ e"
  have mag: "f_mag w = ?n" using False by (simp add: f_mag_def e_def m_def)
  have lo: "2 ^ (23 + e) \<le> ?n" by (simp add: power_add)
  have "?n < 2 ^ 24 * 2 ^ e" using m by simp
  then have hi: "?n < 2 ^ Suc (23 + e)" by (simp add: power_add)
  have len: "bit_length ?n = Suc (23 + e)" by (rule bit_length_eq [OF lo hi])
  have s: "bit_length ?n - 24 = e" unfolding len by simp
  have "e * 2 ^ 23 + (2 ^ 23 + m) < 2139095040" using e_le m by simp
  then have "f_round ?n = e * 2 ^ 23 + (2 ^ 23 + m)"
    unfolding f_round_def s by (simp add: Let_def)
  then show ?thesis unfolding mag low31_split e m_def by simp
qed

lemma zero_lane_facts:
  "\<not> f_isnan 0" "\<not> f_isinf 0" "\<not> f_sign 0" "f_units 0 = 0"
  by (simp_all add: f_isnan_def f_isinf_def f_exp_def f_sign_def f_units_def f_mag_def f_man_def)

lemma unat_split_sign: "unat (w :: 32 word) = (if f_sign w then 2 ^ 31 else 0) + unat w mod 2 ^ 31"
proof -
  have "unat w < 2 ^ 32" using unsigned_less [of w] by simp
  then have "unat w div 2 ^ 31 < 2" by (simp add: less_mult_imp_div_less)
  then consider "unat w div 2 ^ 31 = 0" | "unat w div 2 ^ 31 = 1" by linarith
  then show ?thesis
  proof cases
    case 1
    have "unat w div 2 ^ 31 * 2 ^ 31 + unat w mod 2 ^ 31 = unat w" by (rule div_mult_mod_eq)
    then have "0 * 2 ^ 31 + unat w mod 2 ^ 31 = unat w" unfolding 1 .
    with 1 show ?thesis by (simp add: f_sign_def)
  next
    case 2
    have "unat w div 2 ^ 31 * 2 ^ 31 + unat w mod 2 ^ 31 = unat w" by (rule div_mult_mod_eq)
    then have "1 * 2 ^ 31 + unat w mod 2 ^ 31 = unat w" unfolding 2 .
    with 2 show ?thesis by (simp add: f_sign_def)
  qed
qed

lemma word_from_low31:
  "(if f_sign w then 0x80000000 else 0) + (of_nat (unat w mod 2 ^ 31) :: 32 word) = w"
proof -
  have "(of_nat (unat w) :: 32 word) = w" by simp
  then have "(of_nat ((if f_sign w then 2 ^ 31 else 0) + unat w mod 2 ^ 31) :: 32 word) = w"
    by (simp only: unat_split_sign [symmetric])
  then show ?thesis by (simp split: if_splits)
qed

lemma f_mag_zero_cases:
  assumes "f_exp w < 255" and "f_mag w = 0"
  shows "w = 0 \<or> w = 0x80000000"
proof -
  from assms(2) have "f_exp w = 0 \<and> f_man w = 0"
    by (auto simp: f_mag_def split: if_splits)
  then have low: "unat w mod 2 ^ 31 = 0" unfolding low31_split by simp
  from word_from_low31 [of w] show ?thesis unfolding low by (simp split: if_splits)
qed

lemma fadd_zero_finite:
  assumes fin: "f_exp w < 255"
  shows "fadd w 0 = (if w = 0x80000000 then 0 else w)"
proof -
  have nn: "\<not> f_isnan w" "\<not> f_isinf w" using fin by (simp_all add: f_isnan_def f_isinf_def)
  have add: "fadd w 0 =
      (let u = f_units w
       in if u = 0 then 0
          else if u < 0 then 0x80000000 + of_nat (f_round (nat (- u)))
          else of_nat (f_round (nat u)))"
    using nn by (simp add: fadd_def zero_lane_facts Let_def)
  show ?thesis
  proof (cases "f_mag w = 0")
    case True
    then have "fadd w 0 = 0" unfolding add by (simp add: f_units_def Let_def)
    with f_mag_zero_cases [OF fin True] show ?thesis by auto
  next
    case False
    have ne: "w \<noteq> 0x80000000"
    proof
      assume "w = 0x80000000"
      then have "f_mag w = 0" by (simp add: f_mag_def f_exp_def f_man_def)
      with False show False by simp
    qed
    have "fadd w 0 = (if f_sign w then 0x80000000 else 0) + of_nat (f_round (f_mag w))"
      unfolding add using False by (simp add: f_units_def Let_def)
    also have "\<dots> = w"
      unfolding f_round_f_mag [OF fin] by (rule word_from_low31)
    finally show ?thesis using ne by simp
  qed
qed

lemma fadd_zero_inf:
  assumes "f_isinf w"
  shows "fadd w 0 = w"
proof -
  from assms have "\<not> f_isnan w" by (simp add: f_isnan_def f_isinf_def)
  with assms show ?thesis by (simp add: fadd_def zero_lane_facts)
qed

lemma fadd_zero_nan: "f_isnan w \<Longrightarrow> fadd w 0 = w OR 0x00400000"
  by (simp add: fadd_def f_quiet_def)

lemma quiet_bit: "(w OR 0x00400000 = w) \<longleftrightarrow> bit (w :: 32 word) 22"
proof -
  have p: "(0x00400000 :: 32 word) = 2 ^ 22" by simp
  have "bit (2 ^ 22 :: 32 word) n \<longleftrightarrow> n = 22" for n
    by (simp only: bit_exp_iff possible_bit_word) auto
  then have b: "bit (0x00400000 :: 32 word) n \<longleftrightarrow> n = 22" for n
    by (simp only: p)
  show ?thesis
  proof
    assume "w OR 0x00400000 = w"
    then have "bit w 22 = bit (w OR 0x00400000) 22" by simp
    then show "bit w 22" by (simp only: bit_or_iff b) simp
  next
    assume "bit w 22"
    then show "w OR 0x00400000 = w"
      by (intro bit_eqI) (auto simp only: bit_or_iff b)
  qed
qed

lemma int_min_not_special: "f_exp 0x80000000 = 0"
  by (simp add: f_exp_def)

lemma lane_keeps_iff:
  "lane_keeps w \<longleftrightarrow> w \<noteq> 0x80000000 \<and> \<not> (f_isnan w \<and> \<not> bit w 22)"
proof (cases "f_exp w < 255")
  case True
  then have "\<not> f_isnan w" by (simp add: f_isnan_def)
  with fadd_zero_finite [OF True] zero_not_int_min show ?thesis
    by (auto simp: lane_keeps_def)
next
  case False
  with f_exp_less [of w] have e: "f_exp w = 255" by simp
  then have ne: "w \<noteq> 0x80000000" using int_min_not_special by auto
  show ?thesis
  proof (cases "f_man w = 0")
    case True
    with e have "f_isinf w" "\<not> f_isnan w" by (simp_all add: f_isinf_def f_isnan_def)
    with fadd_zero_inf [of w] ne show ?thesis by (simp add: lane_keeps_def)
  next
    case False
    with e have "f_isnan w" by (simp add: f_isnan_def)
    with fadd_zero_nan [of w] ne show ?thesis by (simp add: lane_keeps_def quiet_bit)
  qed
qed

lemma IdFromAABB_roundtrip_iff:
  "IdFromAABB (AABB_new i c e) = i \<longleftrightarrow> i \<noteq> 0x80000000 \<and> \<not> (f_isnan i \<and> \<not> bit i 22)"
  unfolding IdFromAABB_AABB_new lane_keeps_iff [symmetric] by (simp add: lane_keeps_def)

section \<open>Containment and intersection\<close>

text \<open>
  Boxes that share a face intersect, boxes separated on an axis do not: \<open>[0, 1]\<close> against
  \<open>[1, 2]\<close> and against \<open>[2, 3]\<close> on the x axis.
\<close>

lemma fsub_face: "fsub 0x3FC00000 0x3F000000 = 0x3F800000"
  by (simp add: f32_eval)

lemma fadd_face: "fadd 0x3FC00000 0x3F000000 = 0x40000000"
  by (simp add: f32_eval)

lemma fsub_apart: "fsub 0x40200000 0x3F000000 = 0x40000000"
  by (simp add: f32_eval)

lemma fadd_apart: "fadd 0x40200000 0x3F000000 = 0x40400000"
  by (simp add: f32_eval)

lemma intersects_touching:
  "intersects (AABB_new 1 \<lparr>vec_x = 0x3F000000, vec_y = 0, vec_z = 0\<rparr>
                          \<lparr>vec_x = 0x3F000000, vec_y = 0, vec_z = 0\<rparr>)
              (AABB_new 2 \<lparr>vec_x = 0x3FC00000, vec_y = 0, vec_z = 0\<rparr>
                          \<lparr>vec_x = 0x3F000000, vec_y = 0, vec_z = 0\<rparr>)"
  by (simp add: intersects_lanes AABB_new_sel lane_values fsub_face fadd_face)
    (simp add: cmp_eval)

lemma intersects_separated:
  "\<not> intersects (AABB_new 1 \<lparr>vec_x = 0x3F000000, vec_y = 0, vec_z = 0\<rparr>
                            \<lparr>vec_x = 0x3F000000, vec_y = 0, vec_z = 0\<rparr>)
                (AABB_new 2 \<lparr>vec_x = 0x40200000, vec_y = 0, vec_z = 0\<rparr>
                            \<lparr>vec_x = 0x3F000000, vec_y = 0, vec_z = 0\<rparr>)"
  by (simp add: intersects_lanes AABB_new_sel lane_values fsub_apart fadd_apart)
    (simp add: cmp_eval)

lemma lane_contains_intersects:
  assumes "fle bmin bmax" "\<not> fgt amin bmin" "\<not> flt amax bmax"
  shows "\<not> flt amax bmin \<and> \<not> fgt amin bmax"
  using assms by (auto simp: fle_def fgt_def flt_def)

text \<open>
  C6 as stated, for all boxes, fails on a contained box that is inside out: with extents
  \<open>-1\<close> on the x axis the second box has \<open>min.x = 2\<close> and \<open>max.x = 0\<close>; the first box
  \<open>[0, 1]\<close> passes both containment tests on that axis and is separated from it.
\<close>

theorem contains_not_intersects_inverted:
  "contains (AABB_new (- 1) \<lparr>vec_x = 0x3F000000, vec_y = 0, vec_z = 0\<rparr>
                             \<lparr>vec_x = 0x3F000000, vec_y = 0, vec_z = 0\<rparr>)
            (AABB_new 7 \<lparr>vec_x = 0x3F800000, vec_y = 0, vec_z = 0\<rparr>
                        \<lparr>vec_x = 0xBF800000, vec_y = 0, vec_z = 0\<rparr>) \<noteq> 0
   \<and> \<not> intersects (AABB_new (- 1) \<lparr>vec_x = 0x3F000000, vec_y = 0, vec_z = 0\<rparr>
                                  \<lparr>vec_x = 0x3F000000, vec_y = 0, vec_z = 0\<rparr>)
                   (AABB_new 7 \<lparr>vec_x = 0x3F800000, vec_y = 0, vec_z = 0\<rparr>
                               \<lparr>vec_x = 0xBF800000, vec_y = 0, vec_z = 0\<rparr>)"
  by (simp add: contains_lanes intersects_lanes AABB_new_sel lane_values) (simp add: cmp_eval)

text \<open>
  C6, amended. If the second box is well formed, \<open>min <= max\<close> on each of the three
  spatial axes, then \<open>contains A B\<close> true implies \<open>intersects A B\<close> true, for every box A.
\<close>

theorem contains_imp_intersects:
  assumes "well_formed B" and "contains A B \<noteq> 0"
  shows "intersects A B"
  using assms lane_contains_intersects
  unfolding well_formed_def contains_lanes intersects_lanes by blast

theorem contains_imp_intersects_witness:
  "well_formed (AABB_new 7 \<lparr>vec_x = 0, vec_y = 0, vec_z = 0\<rparr>
                           \<lparr>vec_x = 0x3F000000, vec_y = 0, vec_z = 0\<rparr>)
   \<and> contains (AABB_new (- 1) \<lparr>vec_x = 0, vec_y = 0, vec_z = 0\<rparr>
                               \<lparr>vec_x = 0x3F000000, vec_y = 0, vec_z = 0\<rparr>)
        (AABB_new 7 \<lparr>vec_x = 0, vec_y = 0, vec_z = 0\<rparr>
                    \<lparr>vec_x = 0x3F000000, vec_y = 0, vec_z = 0\<rparr>) \<noteq> 0
   \<and> intersects (AABB_new (- 1) \<lparr>vec_x = 0, vec_y = 0, vec_z = 0\<rparr>
                                 \<lparr>vec_x = 0x3F000000, vec_y = 0, vec_z = 0\<rparr>)
        (AABB_new 7 \<lparr>vec_x = 0, vec_y = 0, vec_z = 0\<rparr>
                    \<lparr>vec_x = 0x3F000000, vec_y = 0, vec_z = 0\<rparr>)"
proof -
  let ?A = "AABB_new (- 1) \<lparr>vec_x = 0, vec_y = 0, vec_z = 0\<rparr>
                           \<lparr>vec_x = 0x3F000000, vec_y = 0, vec_z = 0\<rparr>"
  let ?B = "AABB_new 7 \<lparr>vec_x = 0, vec_y = 0, vec_z = 0\<rparr>
                       \<lparr>vec_x = 0x3F000000, vec_y = 0, vec_z = 0\<rparr>"
  have wf: "well_formed ?B"
    by (simp add: well_formed_def AABB_new_sel lane_values) (simp add: cmp_eval)
  have c: "contains ?A ?B \<noteq> 0"
    by (simp add: contains_lanes AABB_new_sel lane_values) (simp add: cmp_eval)
  from contains_imp_intersects [OF wf c] wf c show ?thesis by simp
qed

section \<open>The bounded-output loop\<close>

lemma bounded_count_stop: "0 \<le> M \<Longrightarrow> N \<le> cur + 1 \<Longrightarrow> bounded_count cur (M + 1) N = cur + 1"
  by (simp add: bounded_count_def max_def min_def)

lemma bounded_count_go:
  "0 \<le> M \<Longrightarrow> \<not> N \<le> cur + 1 \<Longrightarrow> bounded_count (cur + 1) M N = bounded_count cur (M + 1) N"
  by (simp add: bounded_count_def max_def min_def)

lemma bounded_count_ge: "0 \<le> M \<Longrightarrow> cur \<le> bounded_count cur M N"
  by (simp add: bounded_count_def max_def min_def)

lemma bounded_count_le: "0 \<le> M \<Longrightarrow> bounded_count cur M N \<le> cur + M"
  by (simp add: bounded_count_def max_def min_def)

lemma query_loop_count:
  "snd (query_loop hit xs buf cur N) = bounded_count cur (int (length (filter hit xs))) N"
proof (induction xs arbitrary: buf cur)
  case Nil
  show ?case by (simp add: bounded_count_def)
next
  case (Cons x xs)
  have M: "0 \<le> int (length (filter hit xs))" by simp
  show ?case
  proof (cases "hit x")
    case False
    then show ?thesis by (simp add: Cons.IH)
  next
    case True
    then have len: "int (length (filter hit (x # xs))) = int (length (filter hit xs)) + 1"
      by simp
    show ?thesis
    proof (cases "N \<le> cur + 1")
      case stop: True
      have "snd (query_loop hit (x # xs) buf cur N) = cur + 1"
        using True stop by (simp add: Let_def)
      then show ?thesis
        unfolding len using bounded_count_stop [OF M stop] by simp
    next
      case go: False
      have "snd (query_loop hit (x # xs) buf cur N) =
            snd (query_loop hit xs (buf(nat cur := IdFromAABB x)) (cur + 1) N)"
        using True go by (simp add: Let_def)
      then show ?thesis
        unfolding len Cons.IH using bounded_count_go [OF M go] by simp
    qed
  qed
qed

lemma query_loop_count_ge: "cur \<le> snd (query_loop hit xs buf cur N)"
  unfolding query_loop_count by (rule bounded_count_ge) simp

lemma query_loop_buf:
  "0 \<le> cur \<Longrightarrow>
   fst (query_loop hit xs buf cur N) i =
     (if nat cur \<le> i \<and> int i < snd (query_loop hit xs buf cur N)
      then IdFromAABB (filter hit xs ! (i - nat cur)) else buf i)"
proof (induction xs arbitrary: buf cur)
  case Nil
  then show ?case by auto
next
  case (Cons x xs)
  show ?case
  proof (cases "hit x")
    case False
    with Cons show ?thesis by simp
  next
    case True
    let ?buf = "buf(nat cur := IdFromAABB x)"
    show ?thesis
    proof (cases "N \<le> cur + 1")
      case stop: True
      with True Cons.prems show ?thesis by (auto simp: Let_def)
    next
      case go: False
      have nonneg: "0 \<le> cur + 1" using Cons.prems by simp
      have ge: "cur + 1 \<le> snd (query_loop hit xs ?buf (cur + 1) N)"
        by (rule query_loop_count_ge)
      have step: "query_loop hit (x # xs) buf cur N = query_loop hit xs ?buf (cur + 1) N"
        using True go by (simp add: Let_def)
      have suc: "nat (cur + 1) = Suc (nat cur)"
        using Cons.prems by simp
      have fl: "filter hit (x # xs) = x # filter hit xs"
        using True by simp
      consider "i < nat cur" | "i = nat cur" | "nat cur < i" by linarith
      then show ?thesis
      proof cases
        case 1
        then show ?thesis unfolding step Cons.IH [OF nonneg] suc by simp
      next
        case 2
        then have "int i < snd (query_loop hit xs ?buf (cur + 1) N)"
          using ge Cons.prems by simp
        with 2 show ?thesis unfolding step Cons.IH [OF nonneg] suc fl by simp
      next
        case 3
        then have "i - nat cur = Suc (i - Suc (nat cur))" by simp
        with 3 show ?thesis unfolding step Cons.IH [OF nonneg] suc fl by simp
      qed
    qed
  qed
qed

lemma query_loop_count_le_hits:
  "nat (snd (query_loop hit xs buf 0 N)) \<le> length (filter hit xs)"
  using bounded_count_le [of "int (length (filter hit xs))" 0 N]
  unfolding query_loop_count by simp

lemma written_query_loop:
  "written (query_loop hit xs buf 0 N) =
     map IdFromAABB (take (nat (snd (query_loop hit xs buf 0 N))) (filter hit xs))"
proof (rule nth_equalityI)
  show "length (written (query_loop hit xs buf 0 N)) =
        length (map IdFromAABB (take (nat (snd (query_loop hit xs buf 0 N))) (filter hit xs)))"
    using query_loop_count_le_hits [of hit xs buf N] by (simp add: written_def)
next
  fix i assume "i < length (written (query_loop hit xs buf 0 N))"
  then have i: "i < nat (snd (query_loop hit xs buf 0 N))" by (simp add: written_def)
  then have "int i < snd (query_loop hit xs buf 0 N)" by simp
  moreover note i
  moreover have "nat (snd (query_loop hit xs buf 0 N)) \<le> length (filter hit xs)"
    by (rule query_loop_count_le_hits)
  ultimately show "written (query_loop hit xs buf 0 N) ! i =
        map IdFromAABB (take (nat (snd (query_loop hit xs buf 0 N))) (filter hit xs)) ! i"
    by (simp add: written_def query_loop_buf nat_less_iff)
qed

lemma query_loop_frame:
  "0 \<le> cur \<Longrightarrow> int i \<ge> snd (query_loop hit xs buf cur N) \<Longrightarrow> fst (query_loop hit xs buf cur N) i = buf i"
  by (simp add: query_loop_buf)

lemma IntersectedBy_count:
  "snd (fst (IntersectedBy c e buf N s)) =
     bounded_count 0
       (int (length (filter (intersects (AABB_new (- 1) c e)) (elementVector s)))) N"
  by (simp add: IntersectedBy_def Let_def query_loop_count)

lemma bounded_count_min: "0 \<le> M \<Longrightarrow> 1 \<le> N \<Longrightarrow> bounded_count 0 M N = min M N"
  by (simp add: bounded_count_def max_def min_def)

lemma IntersectedBy_count_min:
  "1 \<le> N \<Longrightarrow>
   snd (fst (IntersectedBy c e buf N s)) =
     min (int (length (filter (intersects (AABB_new (- 1) c e)) (elementVector s)))) N"
  by (simp add: IntersectedBy_count bounded_count_min)

lemma IntersectedBy_frame:
  "snd (fst (IntersectedBy c e buf N s)) \<le> int i \<Longrightarrow> fst (fst (IntersectedBy c e buf N s)) i = buf i"
  by (simp add: IntersectedBy_def Let_def query_loop_frame)

lemma fadd_one_zero: "fadd 1 0 = 1"
  by (simp add: f32_eval)

lemma intersects_unit_boxes:
  "intersects (AABB_new i \<lparr>vec_x = 0, vec_y = 0, vec_z = 0\<rparr>
                 \<lparr>vec_x = 0x3F000000, vec_y = 0x3F000000, vec_z = 0x3F000000\<rparr>)
              (AABB_new j \<lparr>vec_x = 0, vec_y = 0, vec_z = 0\<rparr>
                 \<lparr>vec_x = 0x3F000000, vec_y = 0x3F000000, vec_z = 0x3F000000\<rparr>)"
  by (simp add: intersects_lanes AABB_new_sel lane_values) (simp add: cmp_eval)

text \<open>
  C2. The claim is that \<open>IntersectedBy\<close> writes at most \<open>N\<close> ids and returns
  \<open>min (M, N)\<close>, and 0 with nothing written when \<open>N = 0\<close>. The loop tests the capacity
  only after it has stored an id and advanced the counter. On the store holding the single
  entity 1 with center \<open>(0,0,0)\<close> and extents \<open>(0.5,0.5,0.5)\<close>, the query with the same box
  and capacity 0 stores the id 1 in cell 0 of the buffer and returns 1.
\<close>

theorem IntersectedBy_capacity_zero:
  "fst (IntersectedBy \<lparr>vec_x = 0, vec_y = 0, vec_z = 0\<rparr>
          \<lparr>vec_x = 0x3F000000, vec_y = 0x3F000000, vec_z = 0x3F000000\<rparr> buf 0
          (AddItem 1 \<lparr>vec_x = 0, vec_y = 0, vec_z = 0\<rparr>
             \<lparr>vec_x = 0x3F000000, vec_y = 0x3F000000, vec_z = 0x3F000000\<rparr>
             SpatialPartitioner_new))
   = (buf(0 := 1), 1)"
  by (simp add: IntersectedBy_def AddItem_def SpatialPartitioner_new_def Let_def
      intersects_unit_boxes IdFromAABB_AABB_new fadd_one_zero)

section \<open>The store invariants\<close>

lemma store_inv_new: "store_inv SpatialPartitioner_new"
  by (simp add: store_inv_def SpatialPartitioner_new_def)

lemma store_invD1:
  "store_inv s \<Longrightarrow> idToIndex s k = Some i \<Longrightarrow> i < length (elementVector s)"
  by (simp add: store_inv_def)

lemma store_invD2:
  "store_inv s \<Longrightarrow> idToIndex s k = Some i \<Longrightarrow> IdFromAABB (elementVector s ! i) = k"
  by (simp add: store_inv_def)

lemma store_invD3:
  "store_inv s \<Longrightarrow> i < length (elementVector s) \<Longrightarrow>
   idToIndex s (IdFromAABB (elementVector s ! i)) = Some i"
  by (simp add: store_inv_def)

lemma store_inv_distinct:
  assumes "store_inv s"
  shows "distinct (map IdFromAABB (elementVector s))"
proof (unfold distinct_conv_nth, intro allI impI)
  fix i j
  assume "i < length (map IdFromAABB (elementVector s))"
    and "j < length (map IdFromAABB (elementVector s))" and "i \<noteq> j"
  then have i: "i < length (elementVector s)" and j: "j < length (elementVector s)" by simp_all
  show "map IdFromAABB (elementVector s) ! i \<noteq> map IdFromAABB (elementVector s) ! j"
  proof
    assume "map IdFromAABB (elementVector s) ! i = map IdFromAABB (elementVector s) ! j"
    then have eq: "IdFromAABB (elementVector s ! i) = IdFromAABB (elementVector s ! j)"
      using i j by simp
    have "Some i = idToIndex s (IdFromAABB (elementVector s ! i))"
      by (rule store_invD3 [OF assms i, symmetric])
    also have "\<dots> = idToIndex s (IdFromAABB (elementVector s ! j))"
      by (simp only: eq)
    also have "\<dots> = Some j"
      by (rule store_invD3 [OF assms j])
    finally have "i = j" by (simp only: option.inject)
    with \<open>i \<noteq> j\<close> show False by (rule notE)
  qed
qed

lemma store_inv_AddItem:
  assumes inv: "store_inv s" and fresh: "idToIndex s i = None" and keeps: "lane_keeps i"
  shows "store_inv (AddItem i c e s)"
proof -
  have new_id: "IdFromAABB (AABB_new i c e) = i"
    using keeps by (simp add: IdFromAABB_AABB_new lane_keeps_def)
  have other: "IdFromAABB (elementVector s ! k) \<noteq> i" if "k < length (elementVector s)" for k
    using store_invD3 [OF inv that] fresh by auto
  show ?thesis
    unfolding store_inv_def
  proof (intro conjI allI impI)
    fix k j assume "idToIndex (AddItem i c e s) k = Some j"
    then show "j < length (elementVector (AddItem i c e s))"
      using store_invD1 [OF inv, of k j]
      by (auto simp: AddItem_def split: if_splits)
  next
    fix k j assume "idToIndex (AddItem i c e s) k = Some j"
    then show "IdFromAABB (elementVector (AddItem i c e s) ! j) = k"
      using store_invD1 [OF inv, of k j] store_invD2 [OF inv, of k j] new_id
      by (auto simp: AddItem_def nth_append split: if_splits)
  next
    fix j assume "j < length (elementVector (AddItem i c e s))"
    then show "idToIndex (AddItem i c e s) (IdFromAABB (elementVector (AddItem i c e s) ! j)) = Some j"
      using store_invD3 [OF inv, of j] new_id other [of j]
      by (auto simp: AddItem_def nth_append less_Suc_eq)
  qed
qed

lemma store_inv_UpdateItem:
  assumes inv: "store_inv s" and present: "idToIndex s i = Some idx" and keeps: "lane_keeps i"
  shows "\<exists>s'. UpdateItem i c e s = Inr s' \<and> store_inv s' \<and> idToIndex s' = idToIndex s
           \<and> length (elementVector s') = length (elementVector s)"
proof -
  have new_id: "IdFromAABB (AABB_new i c e) = i"
    using keeps by (simp add: IdFromAABB_AABB_new lane_keeps_def)
  have idx: "idx < length (elementVector s)" by (rule store_invD1 [OF inv present])
  let ?s = "\<lparr> elementVector = (elementVector s)[idx := AABB_new i c e], idToIndex = idToIndex s \<rparr>"
  have run: "UpdateItem i c e s = Inr ?s"
    using present idx by (simp add: UpdateItem_def map_subscript_def)
  have "store_inv ?s"
    unfolding store_inv_def
  proof (intro conjI allI impI)
    fix k j assume "idToIndex ?s k = Some j"
    then show "j < length (elementVector ?s)"
      using store_invD1 [OF inv, of k j] by simp
  next
    fix k j assume kj: "idToIndex ?s k = Some j"
    then show "IdFromAABB (elementVector ?s ! j) = k"
      using store_invD1 [OF inv, of k j] store_invD2 [OF inv, of k j] new_id
        store_invD2 [OF inv present] present idx
      by (auto simp: nth_list_update)
  next
    fix j assume "j < length (elementVector ?s)"
    then show "idToIndex ?s (IdFromAABB (elementVector ?s ! j)) = Some j"
      using store_invD3 [OF inv, of j] new_id present idx
      by (cases "j = idx") (simp_all add: nth_list_update)
  qed
  with run show ?thesis by simp
qed

text \<open>
  C4. The claim is that the invariants hold after any sequence of \<open>AddItem\<close> calls with
  fresh ids, \<open>UpdateItem\<close> and \<open>RemoveItem\<close> calls with present ids. The single call
  \<open>AddItem (INT_MIN, c, e)\<close> on the empty store breaks (a) and (b): the mapping holds the
  key \<open>INT_MIN\<close> for slot 0, the packed id of slot 0 reads back as 0, and 0 is not a key.
\<close>

theorem AddItem_int_min_key_mismatch:
  "idToIndex (AddItem (- 2147483648) c e SpatialPartitioner_new) (- 2147483648) = Some 0
   \<and> IdFromAABB (elementVector (AddItem (- 2147483648) c e SpatialPartitioner_new) ! 0) = 0
   \<and> idToIndex (AddItem (- 2147483648) c e SpatialPartitioner_new) 0 = None"
proof -
  have "IdFromAABB (AABB_new (- 2147483648) c e) = 0"
    by (simp only: IdFromAABB_AABB_new int_min_bits fadd_int_min_zero)
  moreover have "(0 :: 32 word) \<noteq> - 2147483648"
    unfolding int_min_bits by (rule zero_not_int_min)
  ultimately show ?thesis
    by (simp add: AddItem_def SpatialPartitioner_new_def)
qed

lemma AddItem_int_min_not_inv:
  "\<not> store_inv (AddItem (- 2147483648) c e SpatialPartitioner_new)"
proof
  assume inv: "store_inv (AddItem (- 2147483648) c e SpatialPartitioner_new)"
  have "idToIndex (AddItem (- 2147483648) c e SpatialPartitioner_new) (- 2147483648) = Some 0"
    by (simp add: AddItem_def SpatialPartitioner_new_def)
  from store_invD2 [OF inv this]
  have "IdFromAABB (AABB_new (- 2147483648) c e) = - 2147483648"
    by (simp add: AddItem_def SpatialPartitioner_new_def)
  then have "fadd 0x80000000 0 = (0x80000000 :: 32 word)"
    by (simp only: IdFromAABB_AABB_new int_min_bits)
  then have "(0 :: 32 word) = 0x80000000"
    by (simp only: fadd_int_min_zero)
  with zero_not_int_min show False by (rule notE)
qed

section \<open>Swap-with-last removal\<close>

lemma swap_remove_mset:
  assumes "idx < length xs"
  shows "mset (butlast (xs[idx := xs ! (length xs - 1)])) = mset xs - {# xs ! idx #}"
proof (cases xs rule: rev_cases)
  case Nil
  with assms show ?thesis by simp
next
  case (snoc ys l)
  show ?thesis
  proof (cases "idx < length ys")
    case True
    then have "mset (butlast (xs[idx := xs ! (length xs - 1)])) = mset (ys[idx := l])"
      using snoc by (simp add: list_update_append1)
    also have "\<dots> = add_mset l (mset ys - {# ys ! idx #})"
      using True by (rule mset_update)
    also have "\<dots> = add_mset l (mset ys) - {# ys ! idx #}"
      using True by (simp add: nth_mem)
    finally show ?thesis using snoc True by (simp add: nth_append)
  next
    case False
    with assms snoc have "idx = length ys" by simp
    then show ?thesis using snoc by simp
  qed
qed

lemma RemoveItem_single:
  assumes inv: "store_inv s" and present: "idToIndex s i = Some idx"
    and small: "length (elementVector s) \<le> 1"
  shows "RemoveItem i s = Inr (RemoveItem_clear s)"
    and "length (elementVector s) = 1" and "idx = 0"
    and "\<And>j k. idToIndex s j = Some k \<Longrightarrow> j = i"
proof -
  have idx: "idx < length (elementVector s)" by (rule store_invD1 [OF inv present])
  with small show len: "length (elementVector s) = 1" and z: "idx = 0" by simp_all
  show "RemoveItem i s = Inr (RemoveItem_clear s)"
    using small by (simp add: RemoveItem_def)
  fix j k assume jk: "idToIndex s j = Some k"
  then have "k < length (elementVector s)" by (rule store_invD1 [OF inv])
  with len have "k = 0" by simp
  then have "IdFromAABB (elementVector s ! 0) = j"
    using store_invD2 [OF inv jk] by simp
  moreover have "IdFromAABB (elementVector s ! 0) = i"
    using store_invD2 [OF inv present] z by simp
  ultimately show "j = i" by simp
qed

lemma RemoveItem_last:
  assumes inv: "store_inv s" and present: "idToIndex s i = Some idx"
    and big: "1 < length (elementVector s)" and last: "idx = length (elementVector s) - 1"
  shows "RemoveItem i s =
           Inr \<lparr> elementVector = butlast (elementVector s), idToIndex = (idToIndex s)(i := None) \<rparr>"
proof -
  have "elementVector s \<noteq> []" using big by auto
  then show ?thesis
    using present big last
    by (simp add: RemoveItem_def RemoveItem_swap_def map_subscript_def size_minus_one_def Let_def)
qed

lemma RemoveItem_inner:
  assumes inv: "store_inv s" and present: "idToIndex s i = Some idx"
    and big: "1 < length (elementVector s)" and inner: "idx \<noteq> length (elementVector s) - 1"
  shows "RemoveItem i s =
           Inr \<lparr> elementVector =
                   butlast ((elementVector s)
                     [idx := elementVector s ! (length (elementVector s) - 1)]),
                 idToIndex = ((idToIndex s)(i := None))
                   (IdFromAABB (elementVector s ! (length (elementVector s) - 1)) \<mapsto> idx) \<rparr>"
proof -
  have idx: "idx < length (elementVector s)" by (rule store_invD1 [OF inv present])
  moreover have "elementVector s \<noteq> []" using big by auto
  ultimately show ?thesis
    using present big inner
    by (simp add: RemoveItem_def RemoveItem_swap_def map_subscript_def size_minus_one_def Let_def)
qed

lemma removal_ok_single:
  assumes inv: "store_inv s" and present: "idToIndex s i = Some idx"
    and small: "length (elementVector s) \<le> 1"
  shows "removal_ok s i idx (RemoveItem_clear s)"
proof -
  note facts = RemoveItem_single [OF inv present small]
  from facts(2) obtain x where es: "elementVector s = [x]"
    by (cases "elementVector s") auto
  have others: "\<forall>j k. j \<noteq> i \<longrightarrow> idToIndex s j = Some k \<longrightarrow>
         (\<exists>k'. idToIndex (RemoveItem_clear s) j = Some k'
            \<and> elementVector (RemoveItem_clear s) ! k' = elementVector s ! k)"
    using facts(4) by blast
  show ?thesis
    unfolding removal_ok_def
    using others es facts(3)
    by (simp add: RemoveItem_clear_def store_inv_def)
qed

lemma removal_ok_last:
  assumes inv: "store_inv s" and present: "idToIndex s i = Some idx"
    and big: "1 < length (elementVector s)" and last: "idx = length (elementVector s) - 1"
  shows "removal_ok s i idx
           \<lparr> elementVector = butlast (elementVector s), idToIndex = (idToIndex s)(i := None) \<rparr>"
    (is "removal_ok s i idx ?s'")
proof -
  let ?es = "elementVector s" and ?m = "idToIndex s"
  let ?n = "length ?es"
  have below: "k < ?n - 1" if "?m j = Some k" "j \<noteq> i" for j k
  proof -
    have "k < ?n" using that(1) by (rule store_invD1 [OF inv])
    moreover have "k \<noteq> ?n - 1"
    proof
      assume "k = ?n - 1"
      then have "?m j = Some idx" using that(1) last by simp
      from store_invD2 [OF inv this] store_invD2 [OF inv present] that(2)
      show False by simp
    qed
    ultimately show ?thesis by simp
  qed
  have a: "j < length (elementVector ?s') \<and> IdFromAABB (elementVector ?s' ! j) = k"
    if "idToIndex ?s' k = Some j" for k j
  proof -
    from that have ki: "k \<noteq> i" and mk: "?m k = Some j" by (auto split: if_splits)
    from below [OF mk ki] store_invD2 [OF inv mk] show ?thesis
      by (simp add: nth_butlast)
  qed
  have b: "idToIndex ?s' (IdFromAABB (elementVector ?s' ! j)) = Some j"
    if "j < length (elementVector ?s')" for j
  proof -
    from that have j: "j < ?n - 1" by simp
    then have jn: "j < ?n" by simp
    have mk: "?m (IdFromAABB (?es ! j)) = Some j" by (rule store_invD3 [OF inv jn])
    have "IdFromAABB (?es ! j) \<noteq> i"
    proof
      assume "IdFromAABB (?es ! j) = i"
      with mk present have "j = idx" by simp
      with j last show False by simp
    qed
    with mk j show ?thesis by (simp add: nth_butlast)
  qed
  have others: "\<exists>k'. idToIndex ?s' j = Some k' \<and> elementVector ?s' ! k' = ?es ! k"
    if "j \<noteq> i" "?m j = Some k" for j k
    using below [OF that(2) that(1)] that by (simp add: nth_butlast)
  have ms: "mset (elementVector ?s') = mset ?es - {# ?es ! idx #}"
  proof -
    have idx: "idx < ?n" by (rule store_invD1 [OF inv present])
    from swap_remove_mset [OF idx] last show ?thesis by simp
  qed
  have len: "length (elementVector ?s') + 1 = ?n" using big by simp
  have none: "idToIndex ?s' i = None" by simp
  have "store_inv ?s'"
    unfolding store_inv_def using a b by blast
  with none len others ms show ?thesis
    unfolding removal_ok_def by blast
qed

lemma removal_ok_inner:
  assumes inv: "store_inv s" and present: "idToIndex s i = Some idx"
    and big: "1 < length (elementVector s)" and inner: "idx \<noteq> length (elementVector s) - 1"
  shows "removal_ok s i idx
           \<lparr> elementVector =
                   butlast ((elementVector s)
                     [idx := elementVector s ! (length (elementVector s) - 1)]),
                 idToIndex = ((idToIndex s)(i := None))
                   (IdFromAABB (elementVector s ! (length (elementVector s) - 1)) \<mapsto> idx) \<rparr>"
    
proof -
  let ?es = "elementVector s" and ?m = "idToIndex s"
  let ?n = "length ?es"
  define l where "l = ?es ! (?n - 1)"
  define s' where "s' = \<lparr> elementVector = butlast (?es[idx := l]),
    idToIndex = (?m(i := None))(IdFromAABB l \<mapsto> idx) \<rparr>"
  let ?lastId = "IdFromAABB l"
  have idxn: "idx < ?n" by (rule store_invD1 [OF inv present])
  with inner have idx: "idx < ?n - 1" by simp
  have lastn: "?n - 1 < ?n" using big by simp
  have mlast: "?m ?lastId = Some (?n - 1)" unfolding l_def by (rule store_invD3 [OF inv lastn])
  have last_ne: "?lastId \<noteq> i"
  proof
    assume "?lastId = i"
    with mlast present have "idx = ?n - 1" by simp
    with inner show False by simp
  qed
  have es': "elementVector s' ! k = (if k = idx then l else ?es ! k)" if "k < ?n - 1" for k
    using that by (simp add: s'_def nth_butlast nth_list_update)
  have len': "length (elementVector s') = ?n - 1" by (simp add: s'_def)
  have m': "idToIndex s' k = (if k = ?lastId then Some idx else if k = i then None else ?m k)"
    for k by (simp add: s'_def)
  have below: "k < ?n - 1 \<and> k \<noteq> idx"
    if "?m j = Some k" "j \<noteq> i" "j \<noteq> ?lastId" for j k
  proof -
    have "k < ?n" using that(1) by (rule store_invD1 [OF inv])
    moreover have "k \<noteq> ?n - 1"
    proof
      assume "k = ?n - 1"
      with store_invD2 [OF inv that(1)] that(3) show False by (simp add: l_def)
    qed
    moreover have "k \<noteq> idx"
    proof
      assume "k = idx"
      with store_invD2 [OF inv that(1)] store_invD2 [OF inv present] that(2)
      show False by simp
    qed
    ultimately show ?thesis by simp
  qed
  have a: "j < length (elementVector s') \<and> IdFromAABB (elementVector s' ! j) = k"
    if "idToIndex s' k = Some j" for k j
  proof (cases "k = ?lastId")
    case True
    with that have "j = idx" unfolding m' by simp
    with idx True show ?thesis unfolding len' by (simp add: es')
  next
    case False
    with that have ki: "k \<noteq> i" and mk: "?m k = Some j"
      unfolding m' by (auto split: if_splits)
    from below [OF mk ki False] store_invD2 [OF inv mk] show ?thesis
      unfolding len' by (simp add: es')
  qed
  have b: "idToIndex s' (IdFromAABB (elementVector s' ! j)) = Some j"
    if "j < length (elementVector s')" for j
  proof (cases "j = idx")
    case True
    with idx show ?thesis unfolding m' by (simp add: es')
  next
    case False
    from that have j: "j < ?n - 1" unfolding len' .
    then have jn: "j < ?n" by simp
    have mk: "?m (IdFromAABB (?es ! j)) = Some j" by (rule store_invD3 [OF inv jn])
    have "IdFromAABB (?es ! j) \<noteq> i"
    proof
      assume "IdFromAABB (?es ! j) = i"
      with mk present have "j = idx" by simp
      with False show False by simp
    qed
    moreover have "IdFromAABB (?es ! j) \<noteq> ?lastId"
    proof
      assume "IdFromAABB (?es ! j) = ?lastId"
      with mk mlast have "j = ?n - 1" by simp
      with j show False by simp
    qed
    ultimately show ?thesis
      unfolding m' using mk j False by (simp add: es')
  qed
  have others: "\<exists>k'. idToIndex s' j = Some k' \<and> elementVector s' ! k' = ?es ! k"
    if "j \<noteq> i" "?m j = Some k" for j k
  proof (cases "j = ?lastId")
    case True
    with that(2) mlast have "k = ?n - 1" by simp
    with True idx show ?thesis unfolding m' by (simp add: es' l_def)
  next
    case False
    from below [OF that(2) that(1) False] that False show ?thesis
      unfolding m' by (simp add: es')
  qed
  have ms: "mset (elementVector s') = mset ?es - {# ?es ! idx #}"
    using swap_remove_mset [OF idxn] by (simp add: s'_def l_def)
  have len: "length (elementVector s') + 1 = ?n" using big by (simp add: s'_def)
  have none: "idToIndex s' i = None" using last_ne by (simp add: s'_def)
  have "store_inv s'"
    unfolding store_inv_def using a b by blast
  with none len others ms have "removal_ok s i idx s'"
    unfolding removal_ok_def by blast
  then show ?thesis unfolding s'_def l_def .
qed

lemma RemoveItem_present:
  assumes inv: "store_inv s" and present: "idToIndex s i = Some idx"
  shows "\<exists>s'. RemoveItem i s = Inr s' \<and> removal_ok s i idx s'"
proof -
  consider "length (elementVector s) \<le> 1"
    | "1 < length (elementVector s)" "idx = length (elementVector s) - 1"
    | "1 < length (elementVector s)" "idx \<noteq> length (elementVector s) - 1"
    by linarith
  then show ?thesis
  proof cases
    case 1
    from RemoveItem_single(1) [OF inv present 1] removal_ok_single [OF inv present 1]
    show ?thesis by blast
  next
    case 2
    from RemoveItem_last [OF inv present 2] removal_ok_last [OF inv present 2]
    show ?thesis by blast
  next
    case 3
    from RemoveItem_inner [OF inv present 3] removal_ok_inner [OF inv present 3]
    show ?thesis by blast
  qed
qed

section \<open>What removal keeps\<close>

lemma bounded_count_all: "0 \<le> M \<Longrightarrow> M \<le> N \<Longrightarrow> bounded_count 0 M N = M"
  by (simp add: bounded_count_def max_def min_def)

lemma query_untruncated:
  assumes "int (length (filter hit xs)) \<le> N"
  shows "written (query_loop hit xs buf 0 N) = map IdFromAABB (filter hit xs)"
proof -
  have "snd (query_loop hit xs buf 0 N) = int (length (filter hit xs))"
    unfolding query_loop_count using assms by (intro bounded_count_all) simp_all
  then show ?thesis by (simp add: written_query_loop)
qed

lemma distinct_remove_by_key:
  assumes "distinct (map f xs)" and "idx < length xs"
  shows "mset xs - {# xs ! idx #} = filter_mset (\<lambda>y. f y \<noteq> f (xs ! idx)) (mset xs)"
  using assms
proof (induction xs arbitrary: idx)
  case Nil
  then show ?case by simp
next
  case (Cons a as)
  show ?case
  proof (cases idx)
    case 0
    have notin: "f a \<notin> f ` set as" using Cons.prems(1) by simp
    have "f y \<noteq> f a" if "y \<in> set as" for y
    proof
      assume "f y = f a"
      with imageI [OF that, of f] notin show False by simp
    qed
    then have "filter_mset (\<lambda>y. f y \<noteq> f a) (mset as) = mset as"
      by (intro filter_mset_eq_conv [THEN iffD2]) auto
    with 0 show ?thesis by simp
  next
    case (Suc k)
    with Cons.prems have k: "k < length as" and d: "distinct (map f as)" by simp_all
    have mem: "as ! k \<in> set as" using k by simp
    have notin: "f a \<notin> f ` set as" using Cons.prems(1) by simp
    have ne: "f a \<noteq> f (as ! k)"
    proof
      assume "f a = f (as ! k)"
      with imageI [OF mem, of f] notin show False by simp
    qed
    have "a \<noteq> as ! k" using ne by auto
    then have "mset (a # as) - {# as ! k #} = add_mset a (mset as - {# as ! k #})"
      by simp
    also have "\<dots> = add_mset a (filter_mset (\<lambda>y. f y \<noteq> f (as ! k)) (mset as))"
      using Cons.IH [OF d k] by simp
    finally show ?thesis using Suc ne by simp
  qed
qed

lemma removal_outputs:
  assumes inv: "store_inv s" and present: "idToIndex s i = Some idx"
    and ms: "mset es' = mset (elementVector s) - {# elementVector s ! idx #}"
  shows "mset (map IdFromAABB (filter hit es')) =
           filter_mset (\<lambda>j. j \<noteq> i) (mset (map IdFromAABB (filter hit (elementVector s))))"
    and "length (filter hit es') \<le> length (filter hit (elementVector s))"
proof -
  let ?es = "elementVector s"
  have idx: "idx < length ?es" by (rule store_invD1 [OF inv present])
  have key: "IdFromAABB (?es ! idx) = i" by (rule store_invD2 [OF inv present])
  have es': "mset es' = filter_mset (\<lambda>y. IdFromAABB y \<noteq> i) (mset ?es)"
    using distinct_remove_by_key [OF store_inv_distinct [OF inv] idx] ms key by simp
  show "mset (map IdFromAABB (filter hit es')) =
           filter_mset (\<lambda>j. j \<noteq> i) (mset (map IdFromAABB (filter hit ?es)))"
    by (simp add: es' filter_mset_image_mset filter_filter_mset conj_commute)
  have "size (filter_mset hit (mset es')) \<le> size (filter_mset hit (mset ?es))"
    unfolding es' by (intro size_mset_mono multiset_filter_mono) simp
  then show "length (filter hit es') \<le> length (filter hit ?es)"
    by (simp flip: mset_filter)
qed

lemma removal_query:
  assumes inv: "store_inv s" and present: "idToIndex s i = Some idx"
    and ms: "mset es' = mset (elementVector s) - {# elementVector s ! idx #}"
    and cap: "int (length (filter hit (elementVector s))) \<le> N"
  shows "mset (written (query_loop hit es' buf 0 N)) =
           filter_mset (\<lambda>j. j \<noteq> i) (mset (written (query_loop hit (elementVector s) buf 0 N)))"
proof -
  note out = removal_outputs [OF inv present ms, of hit]
  have cap': "int (length (filter hit es')) \<le> N" using out(2) cap by simp
  show ?thesis
    unfolding query_untruncated [OF cap] query_untruncated [OF cap'] by (rule out(1))
qed

lemma HasItem_iff: "fst (HasItem j s) \<longleftrightarrow> idToIndex s j \<noteq> None"
  by (simp add: HasItem_def)

lemma AddItem_RemoveItem:
  "RemoveItem j (AddItem j c e t) =
     Inr (if elementVector t = [] then \<lparr> elementVector = [], idToIndex = Map.empty \<rparr>
          else \<lparr> elementVector = elementVector t, idToIndex = (idToIndex t)(j := None) \<rparr>)"
  by (simp add: RemoveItem_def RemoveItem_swap_def RemoveItem_clear_def AddItem_def
      map_subscript_def size_minus_one_def Let_def)

lemma AddItem_RemoveItem_size:
  "\<exists>t'. RemoveItem j (AddItem j c e t) = Inr t' \<and> \<not> fst (HasItem j t')
        \<and> length (elementVector t') = length (elementVector t)"
  by (simp add: AddItem_RemoveItem HasItem_iff)

lemma fadd_two_zero: "fadd 2 0 = 2"
  by (simp add: f32_eval)

lemma fadd_three_zero: "fadd 3 0 = 3"
  by (simp add: f32_eval)

lemma intersects_origin_half: "intersects (AABB_new i origin half) (AABB_new j origin half)"
  unfolding origin_def half_def by (rule intersects_unit_boxes)

lemma store_inv_one: "store_inv (AddItem 1 origin half SpatialPartitioner_new)"
  by (rule store_inv_AddItem [OF store_inv_new])
    (simp_all add: SpatialPartitioner_new_def lane_keeps_def fadd_one_zero)

lemma store_inv_two:
  "store_inv (AddItem 2 origin half (AddItem 1 origin half SpatialPartitioner_new))"
  by (rule store_inv_AddItem [OF store_inv_one])
    (simp_all add: AddItem_def SpatialPartitioner_new_def lane_keeps_def fadd_two_zero)

lemma store_inv_three:
  "store_inv (AddItem 3 origin half
     (AddItem 2 origin half (AddItem 1 origin half SpatialPartitioner_new)))"
  by (rule store_inv_AddItem [OF store_inv_two])
    (simp_all add: AddItem_def SpatialPartitioner_new_def lane_keeps_def fadd_three_zero)

lemma RemoveItem_one_of_three:
  "RemoveItem 1 (AddItem 3 origin half
     (AddItem 2 origin half (AddItem 1 origin half SpatialPartitioner_new))) =
   Inr \<lparr> elementVector = [AABB_new 3 origin half, AABB_new 2 origin half],
         idToIndex = [2 \<mapsto> 1, 3 \<mapsto> 0] \<rparr>"
  by (simp add: RemoveItem_def RemoveItem_swap_def map_subscript_def size_minus_one_def
      AddItem_def SpatialPartitioner_new_def Let_def IdFromAABB_AABB_new fadd_three_zero
      fun_eq_iff)

text \<open>
  C5 as stated promises that every query gives the same result for the surviving ids
  after a removal. A query whose capacity is smaller than the number of matches reports
  the first matches in storage order, and swap-with-last changes that order: with the
  entities 1, 2, 3 on the same box and capacity 1, the query reports the id 1 before
  \<open>RemoveItem 1\<close> and the id 3 after it, so the surviving id 3 is reported only after.
\<close>

theorem RemoveItem_truncated_query_differs:
  "store_inv (AddItem 3 origin half
      (AddItem 2 origin half (AddItem 1 origin half SpatialPartitioner_new)))
   \<and> fst (HasItem 1 (AddItem 3 origin half
      (AddItem 2 origin half (AddItem 1 origin half SpatialPartitioner_new))))
   \<and> written (fst (IntersectedBy origin half zero_buffer 1
        (AddItem 3 origin half
          (AddItem 2 origin half (AddItem 1 origin half SpatialPartitioner_new))))) = [1]
   \<and> written (fst (IntersectedBy origin half zero_buffer 1
        (projr (RemoveItem 1 (AddItem 3 origin half
          (AddItem 2 origin half (AddItem 1 origin half SpatialPartitioner_new))))))) = [3]"
proof -
  have "written (fst (IntersectedBy origin half zero_buffer 1
        (AddItem 3 origin half
          (AddItem 2 origin half (AddItem 1 origin half SpatialPartitioner_new))))) = [1]"
    by (simp add: IntersectedBy_def AddItem_def SpatialPartitioner_new_def Let_def
        intersects_origin_half IdFromAABB_AABB_new fadd_one_zero written_def)
  moreover have "written (fst (IntersectedBy origin half zero_buffer 1
        (projr (RemoveItem 1 (AddItem 3 origin half
          (AddItem 2 origin half (AddItem 1 origin half SpatialPartitioner_new))))))) = [3]"
    unfolding RemoveItem_one_of_three
    by (simp add: IntersectedBy_def Let_def
        intersects_origin_half IdFromAABB_AABB_new fadd_three_zero written_def)
  moreover have "fst (HasItem 1 (AddItem 3 origin half
      (AddItem 2 origin half (AddItem 1 origin half SpatialPartitioner_new))))"
    by (simp add: HasItem_iff AddItem_def)
  ultimately show ?thesis using store_inv_three by simp
qed

text \<open>
  C5, amended. For a store that satisfies the store invariants and an id present in it,
  \<open>RemoveItem\<close> returns normally; afterwards \<open>HasItem\<close> of the id is false, the entity
  count is one less, every other id that was present is still present and addresses the
  same box, and each of the three queries, when its capacity is at least the number of
  entities that matched before the removal, reports the same ids as before except the
  removed one (as multisets, so up to order). For every store and id, \<open>AddItem\<close> followed
  by \<open>RemoveItem\<close> of the same id returns normally, leaves the id absent and restores
  the entity count.
\<close>

theorem RemoveItem_frame:
  assumes inv: "store_inv s" and has: "fst (HasItem i s)"
  shows "(\<exists>s'. RemoveItem i s = Inr s'
      \<and> \<not> fst (HasItem i s')
      \<and> length (elementVector s') + 1 = length (elementVector s)
      \<and> (\<forall>j. j \<noteq> i \<and> fst (HasItem j s) \<longrightarrow>
             fst (HasItem j s')
             \<and> elementVector s' ! the (idToIndex s' j) = elementVector s ! the (idToIndex s j))
      \<and> (\<forall>c e buf N.
             int (length (filter (intersects (AABB_new (- 1) c e)) (elementVector s))) \<le> N \<longrightarrow>
             mset (written (fst (IntersectedBy c e buf N s'))) =
               filter_mset (\<lambda>j. j \<noteq> i) (mset (written (fst (IntersectedBy c e buf N s)))))
      \<and> (\<forall>c e buf N.
             int (length (filter (intersectsOrig (AABB_new (- 1) c e)) (elementVector s))) \<le> N \<longrightarrow>
             mset (written (fst (IntersectedByOrig c e buf N s'))) =
               filter_mset (\<lambda>j. j \<noteq> i) (mset (written (fst (IntersectedByOrig c e buf N s)))))
      \<and> (\<forall>c e buf N.
             int (length (filter (\<lambda>it. contains (AABB_new (- 1) c e) it \<noteq> 0) (elementVector s)))
               \<le> N \<longrightarrow>
             mset (written (fst (ContainedBy c e buf N s'))) =
               filter_mset (\<lambda>j. j \<noteq> i) (mset (written (fst (ContainedBy c e buf N s))))))
    \<and> (\<forall>t j c e. \<exists>t'. RemoveItem j (AddItem j c e t) = Inr t' \<and> \<not> fst (HasItem j t')
          \<and> length (elementVector t') = length (elementVector t))"
proof -
  from has obtain idx where present: "idToIndex s i = Some idx"
    by (auto simp: HasItem_iff)
  from RemoveItem_present [OF inv present] obtain s' where
    run: "RemoveItem i s = Inr s'" and ok: "removal_ok s i idx s'" by blast
  from ok have gone: "idToIndex s' i = None"
    and len: "length (elementVector s') + 1 = length (elementVector s)"
    and others: "\<And>j k. j \<noteq> i \<Longrightarrow> idToIndex s j = Some k \<Longrightarrow>
         \<exists>k'. idToIndex s' j = Some k' \<and> elementVector s' ! k' = elementVector s ! k"
    and ms: "mset (elementVector s') = mset (elementVector s) - {# elementVector s ! idx #}"
    unfolding removal_ok_def by blast+
  have frame: "fst (HasItem j s')
      \<and> elementVector s' ! the (idToIndex s' j) = elementVector s ! the (idToIndex s j)"
    if "j \<noteq> i \<and> fst (HasItem j s)" for j
  proof -
    from that obtain k where k: "idToIndex s j = Some k" by (auto simp: HasItem_iff)
    from others [OF _ k] that obtain k' where
      "idToIndex s' j = Some k'" "elementVector s' ! k' = elementVector s ! k" by blast
    with k show ?thesis by (simp add: HasItem_iff)
  qed
  note q = removal_query [OF inv present ms]
  have q1: "mset (written (fst (IntersectedBy c e buf N s'))) =
               filter_mset (\<lambda>j. j \<noteq> i) (mset (written (fst (IntersectedBy c e buf N s))))"
    if "int (length (filter (intersects (AABB_new (- 1) c e)) (elementVector s))) \<le> N"
    for c e buf N
    using q [OF that] by (simp add: IntersectedBy_def Let_def)
  have q2: "mset (written (fst (IntersectedByOrig c e buf N s'))) =
               filter_mset (\<lambda>j. j \<noteq> i) (mset (written (fst (IntersectedByOrig c e buf N s))))"
    if "int (length (filter (intersectsOrig (AABB_new (- 1) c e)) (elementVector s))) \<le> N"
    for c e buf N
    using q [OF that] by (simp add: IntersectedByOrig_def Let_def)
  have q3: "mset (written (fst (ContainedBy c e buf N s'))) =
               filter_mset (\<lambda>j. j \<noteq> i) (mset (written (fst (ContainedBy c e buf N s))))"
    if "int (length (filter (\<lambda>it. contains (AABB_new (- 1) c e) it \<noteq> 0) (elementVector s))) \<le> N"
    for c e buf N
    using q [OF that] by (simp add: ContainedBy_def Let_def)
  have not_has: "\<not> fst (HasItem i s')" using gone by (simp add: HasItem_iff)
  from run not_has len frame q1 q2 q3 AddItem_RemoveItem_size show ?thesis
    by blast
qed

theorem RemoveItem_frame_witness:
  "store_inv (AddItem 2 origin half (AddItem 1 origin half SpatialPartitioner_new))
   \<and> fst (HasItem 1 (AddItem 2 origin half (AddItem 1 origin half SpatialPartitioner_new)))
   \<and> (\<exists>s'. RemoveItem 1 (AddItem 2 origin half (AddItem 1 origin half SpatialPartitioner_new))
              = Inr s'
          \<and> \<not> fst (HasItem 1 s')
          \<and> length (elementVector s') + 1 = 2
          \<and> fst (HasItem 2 s'))"
proof -
  let ?s = "AddItem 2 origin half (AddItem 1 origin half SpatialPartitioner_new)"
  have has: "fst (HasItem 1 ?s)" and has2: "(2 :: int32) \<noteq> 1 \<and> fst (HasItem 2 ?s)"
    by (simp_all add: HasItem_iff AddItem_def)
  have len: "length (elementVector ?s) = 2" by (simp add: AddItem_def SpatialPartitioner_new_def)
  from RemoveItem_frame [OF store_inv_two has] has2 len store_inv_two has
  show ?thesis by metis
qed

section \<open>The two branches of removal\<close>

text \<open>
  C7 as stated says that on a store of zero or one entities, for every id, clearing gives
  the end state the swap-with-last branch would give. On the empty store that branch
  reads \<open>elementVector[size() - 1]\<close> with \<open>size() - 1\<close> wrapped around, outside the
  vector. On a one-entity store and an id that is not present, \<open>operator[]\<close> inserts the id
  with slot 0, the branch takes it for the last slot and pops the only entity, and the
  mapping still holds the entity's own id.
\<close>

theorem RemoveItem_swap_differs_from_clear:
  "RemoveItem_swap 5 SpatialPartitioner_new = Inl OutOfRange
   \<and> RemoveItem_swap 2 (AddItem 1 origin half SpatialPartitioner_new)
       \<noteq> Inr (RemoveItem_clear (AddItem 1 origin half SpatialPartitioner_new))"
proof -
  have "RemoveItem_swap 5 SpatialPartitioner_new = Inl OutOfRange"
    by (simp add: RemoveItem_swap_def map_subscript_def size_minus_one_def SIZE_MAX_def
        SpatialPartitioner_new_def Let_def)
  moreover have "RemoveItem_swap 2 (AddItem 1 origin half SpatialPartitioner_new)
       = Inr \<lparr> elementVector = [], idToIndex = [1 \<mapsto> 0] \<rparr>"
    by (simp add: RemoveItem_swap_def map_subscript_def size_minus_one_def
        SpatialPartitioner_new_def AddItem_def Let_def fun_eq_iff)
  moreover have "\<lparr> elementVector = [], idToIndex = [(1 :: int32) \<mapsto> (0 :: nat)] \<rparr>
       \<noteq> RemoveItem_clear (AddItem 1 origin half SpatialPartitioner_new)"
  proof
    assume "\<lparr> elementVector = [], idToIndex = [(1 :: int32) \<mapsto> (0 :: nat)] \<rparr>
       = RemoveItem_clear (AddItem 1 origin half SpatialPartitioner_new)"
    then have "[(1 :: int32) \<mapsto> (0 :: nat)] = Map.empty"
      by (simp add: RemoveItem_clear_def)
    then show False by simp
  qed
  ultimately show ?thesis by simp
qed

text \<open>
  C7, amended. On a store that satisfies the invariants and holds exactly one entity, for
  the id of that entity, the swap-with-last branch returns normally with exactly the
  state that clearing both containers gives.
\<close>

theorem RemoveItem_single_paths_agree:
  assumes inv: "store_inv s" and one: "length (elementVector s) = 1"
    and has: "fst (HasItem itemId s)"
  shows "RemoveItem_swap itemId s = Inr (RemoveItem_clear s)"
proof -
  from has obtain idx where present: "idToIndex s itemId = Some idx"
    by (auto simp: HasItem_iff)
  have small: "length (elementVector s) \<le> 1" using one by simp
  note facts = RemoveItem_single [OF inv present small]
  have empty: "(idToIndex s)(itemId := None) = Map.empty"
  proof
    fix k show "((idToIndex s)(itemId := None)) k = None"
      using facts(4) [of k] by (cases "idToIndex s k") auto
  qed
  from one obtain x where es: "elementVector s = [x]"
    by (cases "elementVector s") auto
  show ?thesis
    using present facts(3) es empty
    by (simp add: RemoveItem_swap_def map_subscript_def size_minus_one_def
        RemoveItem_clear_def Let_def)
qed

theorem RemoveItem_single_paths_agree_witness:
  "store_inv (AddItem 1 origin half SpatialPartitioner_new)
   \<and> length (elementVector (AddItem 1 origin half SpatialPartitioner_new)) = 1
   \<and> fst (HasItem 1 (AddItem 1 origin half SpatialPartitioner_new))
   \<and> RemoveItem_swap 1 (AddItem 1 origin half SpatialPartitioner_new)
       = Inr (RemoveItem_clear (AddItem 1 origin half SpatialPartitioner_new))"
proof -
  let ?s = "AddItem 1 origin half SpatialPartitioner_new"
  have one: "length (elementVector ?s) = 1"
    by (simp add: AddItem_def SpatialPartitioner_new_def)
  have has: "fst (HasItem 1 ?s)" by (simp add: HasItem_iff AddItem_def)
  from RemoveItem_single_paths_agree [OF store_inv_one one has] store_inv_one one has
  show ?thesis by simp
qed

section \<open>Sequences of calls\<close>

text \<open>
  When every id passed to \<open>AddItem\<close> is one the fourth lane keeps, the invariants hold
  after every sequence of calls of the kind C4 describes, and no call of such a sequence
  accesses the vector out of range.
\<close>

lemma ids_keptD: "ids_kept s \<Longrightarrow> idToIndex s k = Some i \<Longrightarrow> lane_keeps k"
  unfolding ids_kept_def by blast

lemma removal_ok_keys:
  assumes inv: "store_inv s" and ok: "removal_ok s i idx s'" and k: "idToIndex s' k = Some j"
  shows "idToIndex s k \<noteq> None"
proof -
  from ok have inv': "store_inv s'"
    and ms: "mset (elementVector s') = mset (elementVector s) - {# elementVector s ! idx #}"
    unfolding removal_ok_def by blast+
  have j: "j < length (elementVector s')" and key: "IdFromAABB (elementVector s' ! j) = k"
    using store_invD1 [OF inv' k] store_invD2 [OF inv' k] by simp_all
  from j have "elementVector s' ! j \<in># mset (elementVector s')" by simp
  then have "elementVector s' ! j \<in># mset (elementVector s)"
    unfolding ms by (rule in_diffD)
  then obtain n where n: "n < length (elementVector s)"
    and "elementVector s ! n = elementVector s' ! j"
    by (auto simp: in_set_conv_nth)
  with store_invD3 [OF inv n] key show ?thesis by simp
qed

lemma reachable_inv: "reachable s \<Longrightarrow> store_inv s \<and> ids_kept s"
proof (induction rule: reachable.induct)
  case start
  have "ids_kept SpatialPartitioner_new"
    by (simp add: ids_kept_def SpatialPartitioner_new_def)
  with store_inv_new show ?case by simp
next
  case (add s i c e)
  then have fresh: "idToIndex s i = None" by (simp add: HasItem_iff)
  have "store_inv (AddItem i c e s)"
    using add.IH add.hyps(3) fresh by (intro store_inv_AddItem) simp_all
  moreover have "ids_kept (AddItem i c e s)"
    using add.IH add.hyps(3) unfolding ids_kept_def
    by (auto simp: AddItem_def split: if_splits)
  ultimately show ?case by simp
next
  case (update s i c e s')
  then obtain idx where present: "idToIndex s i = Some idx" by (auto simp: HasItem_iff)
  have keeps: "lane_keeps i" using update.IH present by (blast dest: ids_keptD)
  from store_inv_UpdateItem [OF _ present keeps, of c e] update.IH update.hyps(3)
  have "store_inv s'" and "idToIndex s' = idToIndex s" by auto
  with update.IH show ?case by (simp add: ids_kept_def)
next
  case (remove s i s')
  then obtain idx where present: "idToIndex s i = Some idx" by (auto simp: HasItem_iff)
  from remove.IH have inv: "store_inv s" and kept: "ids_kept s" by simp_all
  from RemoveItem_present [OF inv present] remove.hyps(3)
  have ok: "removal_ok s i idx s'" by auto
  then have "store_inv s'" unfolding removal_ok_def by blast
  moreover have "ids_kept s'"
    unfolding ids_kept_def
  proof (intro allI impI)
    fix k j assume "idToIndex s' k = Some j"
    from removal_ok_keys [OF inv ok this] obtain n where "idToIndex s k = Some n" by auto
    then show "lane_keeps k" by (rule ids_keptD [OF kept])
  qed
  ultimately show ?case by simp
qed

lemma reachable_no_fault:
  assumes "reachable s" and "fst (HasItem i s)"
  shows "\<exists>s'. UpdateItem i c e s = Inr s'" and "\<exists>s'. RemoveItem i s = Inr s'"
proof -
  from assms(2) obtain idx where present: "idToIndex s i = Some idx" by (auto simp: HasItem_iff)
  from reachable_inv [OF assms(1)] have inv: "store_inv s" and kept: "ids_kept s" by simp_all
  have keeps: "lane_keeps i" by (rule ids_keptD [OF kept present])
  from store_inv_UpdateItem [OF inv present keeps, of c e] show "\<exists>s'. UpdateItem i c e s = Inr s'"
    by blast
  from RemoveItem_present [OF inv present] show "\<exists>s'. RemoveItem i s = Inr s'" by blast
qed

section \<open>Adding an id twice\<close>

lemma count_distinct_hit:
  assumes d: "distinct (map f xs)" and idx: "idx < length xs" and hit: "hit (xs ! idx)"
  shows "count (mset (map f (filter hit xs))) (f (xs ! idx)) = 1"
proof -
  have "distinct (map f (filter hit xs))" using d by (rule distinct_map_filter)
  moreover have "xs ! idx \<in> set (filter hit xs)" using idx hit by simp
  then have "f (xs ! idx) \<in> set (map f (filter hit xs))" by (simp only: set_map) (rule imageI)
  ultimately show ?thesis by (simp only: distinct_count_atmost_1) simp
qed

text \<open>
  C8 as stated says that a query box overlapping the old and the new bounds reports the
  id twice. The output is bounded by the capacity: with capacity 1 the query on the store
  that holds the id 1 twice reports it once.
\<close>

theorem AddItem_duplicate_single_report:
  "store_inv (AddItem 1 origin half SpatialPartitioner_new)
   \<and> fst (HasItem 1 (AddItem 1 origin half SpatialPartitioner_new))
   \<and> intersects (AABB_new (- 1) origin half)
        (elementVector (AddItem 1 origin half SpatialPartitioner_new) ! 0)
   \<and> intersects (AABB_new (- 1) origin half) (AABB_new 1 origin half)
   \<and> written (fst (IntersectedBy origin half zero_buffer 1
        (AddItem 1 origin half (AddItem 1 origin half SpatialPartitioner_new)))) = [1]"
proof -
  have "written (fst (IntersectedBy origin half zero_buffer 1
        (AddItem 1 origin half (AddItem 1 origin half SpatialPartitioner_new)))) = [1]"
    by (simp add: IntersectedBy_def AddItem_def SpatialPartitioner_new_def Let_def
        intersects_origin_half IdFromAABB_AABB_new fadd_one_zero written_def)
  moreover have "fst (HasItem 1 (AddItem 1 origin half SpatialPartitioner_new))"
    by (simp add: HasItem_iff AddItem_def)
  moreover have "intersects (AABB_new (- 1) origin half)
        (elementVector (AddItem 1 origin half SpatialPartitioner_new) ! 0)"
    by (simp add: AddItem_def SpatialPartitioner_new_def intersects_origin_half)
  ultimately show ?thesis using store_inv_one intersects_origin_half by simp
qed

text \<open>
  C8, amended. For a store that satisfies the invariants, an id present in it whose bit
  pattern the fourth lane keeps, and any center and extents: \<open>AddItem\<close> appends an entity,
  so the count grows by one; the mapping of the id points to the new last slot; the entity
  stored before under that id is still in its slot and still carries the id; and
  \<open>IntersectedBy\<close> with a query box that intersects both boxes and a capacity of at least
  the number of matching entities writes the id exactly twice.
\<close>

theorem AddItem_duplicate:
  assumes inv: "store_inv s" and has: "fst (HasItem i s)" and keeps: "lane_keeps i"
  shows "length (elementVector (AddItem i c e s)) = length (elementVector s) + 1
     \<and> idToIndex (AddItem i c e s) i = Some (length (elementVector s))
     \<and> the (idToIndex s i) < length (elementVector s)
     \<and> elementVector (AddItem i c e s) ! the (idToIndex s i)
         = elementVector s ! the (idToIndex s i)
     \<and> IdFromAABB (elementVector s ! the (idToIndex s i)) = i
     \<and> elementVector (AddItem i c e s) ! length (elementVector s) = AABB_new i c e
     \<and> IdFromAABB (AABB_new i c e) = i
     \<and> (\<forall>qc qe buf N.
           intersects (AABB_new (- 1) qc qe) (elementVector s ! the (idToIndex s i))
           \<and> intersects (AABB_new (- 1) qc qe) (AABB_new i c e)
           \<and> int (length (filter (intersects (AABB_new (- 1) qc qe))
                 (elementVector (AddItem i c e s)))) \<le> N
           \<longrightarrow> count (mset (written (fst (IntersectedBy qc qe buf N (AddItem i c e s))))) i = 2)"
proof -
  from has obtain idx where present: "idToIndex s i = Some idx"
    by (auto simp: HasItem_iff)
  have idx: "idx < length (elementVector s)" by (rule store_invD1 [OF inv present])
  have key: "IdFromAABB (elementVector s ! idx) = i" by (rule store_invD2 [OF inv present])
  have new_id: "IdFromAABB (AABB_new i c e) = i"
    using keeps by (simp add: IdFromAABB_AABB_new lane_keeps_def)
  have twice: "count (mset (written (fst (IntersectedBy qc qe buf N (AddItem i c e s))))) i = 2"
    if old: "intersects (AABB_new (- 1) qc qe) (elementVector s ! idx)"
      and new: "intersects (AABB_new (- 1) qc qe) (AABB_new i c e)"
      and cap: "int (length (filter (intersects (AABB_new (- 1) qc qe))
                 (elementVector (AddItem i c e s)))) \<le> N"
    for qc qe buf N
  proof -
    let ?hit = "intersects (AABB_new (- 1) qc qe)"
    have "written (fst (IntersectedBy qc qe buf N (AddItem i c e s)))
        = map IdFromAABB (filter ?hit (elementVector (AddItem i c e s)))"
      using query_untruncated [OF cap] by (simp add: IntersectedBy_def Let_def)
    also have "\<dots> = map IdFromAABB (filter ?hit (elementVector s)) @ [i]"
      using new new_id by (simp add: AddItem_def)
    finally have "count (mset (written (fst (IntersectedBy qc qe buf N (AddItem i c e s))))) i
        = count (mset (map IdFromAABB (filter ?hit (elementVector s)))) i + 1"
      by simp
    also have "count (mset (map IdFromAABB (filter ?hit (elementVector s)))) i = 1"
      using count_distinct_hit [of IdFromAABB "elementVector s" idx ?hit,
          OF store_inv_distinct [OF inv] idx old] key by simp
    finally show ?thesis by simp
  qed
  have sel: "elementVector (AddItem i c e s) ! idx = elementVector s ! idx"
    using idx by (simp add: AddItem_def nth_append)
  have last: "elementVector (AddItem i c e s) ! length (elementVector s) = AABB_new i c e"
    by (simp add: AddItem_def)
  have len: "length (elementVector (AddItem i c e s)) = length (elementVector s) + 1"
    and map: "idToIndex (AddItem i c e s) i = Some (length (elementVector s))"
    by (simp_all add: AddItem_def)
  from len map idx sel key last new_id twice present show ?thesis by simp
qed

theorem AddItem_duplicate_witness:
  "store_inv (AddItem 1 origin half SpatialPartitioner_new)
   \<and> fst (HasItem 1 (AddItem 1 origin half SpatialPartitioner_new))
   \<and> lane_keeps 1
   \<and> length (elementVector (AddItem 1 origin half
        (AddItem 1 origin half SpatialPartitioner_new))) = 2
   \<and> count (mset (written (fst (IntersectedBy origin half zero_buffer 2
        (AddItem 1 origin half (AddItem 1 origin half SpatialPartitioner_new)))))) 1 = 2"
proof -
  let ?s = "AddItem 1 origin half SpatialPartitioner_new"
  have has: "fst (HasItem 1 ?s)" by (simp add: HasItem_iff AddItem_def)
  have keeps: "lane_keeps 1" by (simp add: lane_keeps_def fadd_one_zero)
  have old: "intersects (AABB_new (- 1) origin half) (elementVector ?s ! the (idToIndex ?s 1))"
    by (simp add: AddItem_def SpatialPartitioner_new_def intersects_origin_half)
  have cap: "int (length (filter (intersects (AABB_new (- 1) origin half))
                 (elementVector (AddItem 1 origin half ?s)))) \<le> 2"
    by (simp add: AddItem_def SpatialPartitioner_new_def intersects_origin_half)
  have len: "length (elementVector ?s) + 1 = 2"
    by (simp add: AddItem_def SpatialPartitioner_new_def)
  from AddItem_duplicate [OF store_inv_one has keeps, of origin half]
    old cap intersects_origin_half [of "- 1" 1] len store_inv_one has keeps
  show ?thesis by metis
qed

section \<open>The specification's scenarios\<close>

text \<open>
  Scenario A: the store holding entity 1 on the box with center \<open>(0,0,0)\<close> and extents
  \<open>(0.5,0.5,0.5)\<close>, queried with the same box, reports one match, the id 1. Scenario B:
  queried with center \<open>(1.25,1.25,1.25)\<close> it reports none.
\<close>

lemma fsub_query_b: "fsub 0x3FA00000 0x3F000000 = 0x3F400000"
  by (simp add: f32_eval)

lemma fadd_query_b: "fadd 0x3FA00000 0x3F000000 = 0x3FE00000"
  by (simp add: f32_eval)

lemma scenario_A:
  "fst (IntersectedBy origin half zero_buffer 8 (AddItem 1 origin half SpatialPartitioner_new))
   = (zero_buffer(0 := 1), 1)"
  by (simp add: IntersectedBy_def AddItem_def SpatialPartitioner_new_def Let_def
      intersects_origin_half IdFromAABB_AABB_new fadd_one_zero)

lemma scenario_B:
  "fst (IntersectedBy \<lparr>vec_x = 0x3FA00000, vec_y = 0x3FA00000, vec_z = 0x3FA00000\<rparr> half
          zero_buffer 8 (AddItem 1 origin half SpatialPartitioner_new))
   = (zero_buffer, 0)"
proof -
  have "\<not> intersects
      (AABB_new (- 1) \<lparr>vec_x = 0x3FA00000, vec_y = 0x3FA00000, vec_z = 0x3FA00000\<rparr> half)
      (AABB_new 1 origin half)"
    by (simp add: intersects_lanes AABB_new_sel origin_def half_def lane_values
        fsub_query_b fadd_query_b) (simp add: cmp_eval)
  then show ?thesis
    by (simp add: IntersectedBy_def AddItem_def SpatialPartitioner_new_def Let_def)
qed

section \<open>Queries leave the store alone\<close>

text \<open>
  C9. \<open>IntersectedBy\<close>, \<open>IntersectedByOrig\<close>, \<open>ContainedBy\<close> and \<open>HasItem\<close> return the store
  they were given: the entity sequence and the id mapping are the same after the call,
  for every store and all arguments. (The output buffer is the caller's and is taken to be
  disjoint from the store.)
\<close>

theorem queries_keep_store:
  "snd (IntersectedBy c e buf n s) = s \<and> snd (IntersectedByOrig c e buf n s) = s
   \<and> snd (ContainedBy c e buf n s) = s \<and> snd (HasItem h s) = s"
  by (simp add: IntersectedBy_def IntersectedByOrig_def ContainedBy_def HasItem_def Let_def)

section \<open>Removal from the empty store\<close>

text \<open>
  C10. \<open>RemoveItem\<close> of any id on the empty store returns normally and leaves the store
  empty: no element is accessed, and clearing two empty containers changes nothing.
\<close>

theorem RemoveItem_empty_noop:
  "RemoveItem itemId SpatialPartitioner_new = Inr SpatialPartitioner_new"
  by (simp add: RemoveItem_def RemoveItem_clear_def SpatialPartitioner_new_def)

end
